theory Spec2Isabelle
  imports Complex_Main
begin

section \<open>JumpLab: jump metrics, playback and the local stores\<close>

text \<open>
  The development follows \<^verbatim>\<open>src/utils/physics.ts\<close>, \<^verbatim>\<open>src/App.tsx\<close> and the type
  declarations of the application.

  Conventions of the embedding.
  \<^item> A TypeScript \<^verbatim>\<open>number\<close> is a \<^typ>\<open>real\<close>; \<^verbatim>\<open>NaN\<close> and the infinities are outside
    the model. \<^verbatim>\<open>Math.floor\<close> is \<^const>\<open>floor\<close>, \<^verbatim>\<open>Math.max\<close> and \<^verbatim>\<open>Math.min\<close> are
    \<^const>\<open>max\<close> and \<^const>\<open>min\<close>. The handlers compute in exact arithmetic. Where the
    rounding of IEEE 754 doubles decides what the code returns, in the time format and in
    the height stored with a saved result, every operation that rounds in the code rounds
    in the model, with \<open>fl\<close> below; a function that exists in both forms carries
    \<open>64\<close> in the name of the rounding one.
  \<^item> A value of type \<^verbatim>\<open>T | null\<close> is a \<^typ>\<open>'a option\<close>.
  \<^item> A string is a \<^typ>\<open>string\<close> of ASCII characters.
  \<^item> The fields of the interfaces carry a prefix (\<open>up_\<close>, \<open>jr_\<close>, \<open>rl_\<close>, \<open>vm_\<close>),
    because \<^verbatim>\<open>id\<close> is a field of all four and a constant of HOL.
  \<^item> The component state of \<^verbatim>\<open>App\<close> (its \<^verbatim>\<open>useState\<close> cells), the video element
    behind \<^verbatim>\<open>videoRef\<close>, the local storage and the alerts shown are one record, and
    every handler is a function from the state before the event to the state after it.
  \<^item> \<^verbatim>\<open>generateId()\<close> and \<^verbatim>\<open>Date.now()\<close> are inputs of the handlers that call them.
\<close>

subsection \<open>Interfaces\<close>

record UserProfile =
  up_id :: string
  up_name :: string
  up_createdAt :: real

record JumpRecord =
  jr_id :: string
  jr_userId :: string
  jr_date :: real
  jr_heightCm :: real
  jr_flightTime :: real
  jr_note :: "string option"

record ReferenceLineData =
  rl_id :: string
  rl_topPercent :: real
  rl_color :: string

record VideoMarker =
  vm_id :: string
  vm_time :: real
  vm_label :: string

text \<open>
  The attributes of the \<^verbatim>\<open>HTMLVideoElement\<close> that the handlers read and write. The
  record holds the values as the handlers leave them; what the host does on its own
  between two events (advancing the time while playing, adjusting a requested position)
  is not part of the source.
\<close>

record VideoElement =
  el_currentTime :: real
  el_duration :: real
  el_paused :: bool
  el_playbackRate :: real

text \<open>
  What \<^verbatim>\<open>localStorage\<close> holds under a key: the list that was passed through
  \<^verbatim>\<open>JSON.stringify\<close>.
\<close>

datatype stored = StoredUsers "UserProfile list" | StoredHistory "JumpRecord list"

text \<open>The one alert of the handlers below: the confirmation that a result was saved.\<close>

datatype alert = AlertSaved

record AppState =
  videoSrc :: "string option"
  isPlaying :: bool
  currentTime :: real
  duration :: real
  playbackRate :: real
  fps :: real
  containerHeight :: real
  takeOffTime :: "real option"
  landingTime :: "real option"
  lines :: "ReferenceLineData list"
  markers :: "VideoMarker list"
  users :: "UserProfile list"
  currentUser :: "UserProfile option"
  jumpHistory :: "JumpRecord list"
  isUserModalOpen :: bool
  newUserName :: string
  videoRef :: "VideoElement option"
  localStorage :: "string \<rightharpoonup> stored"
  alerts :: "alert list"

text \<open>The initial values of the \<^verbatim>\<open>useState\<close> cells and of the refs.\<close>

definition initialState :: AppState where
  "initialState =
     \<lparr> videoSrc = None, isPlaying = False, currentTime = 0, duration = 0,
       playbackRate = 1, fps = 60, containerHeight = 0,
       takeOffTime = None, landingTime = None,
       lines = [\<lparr> rl_id = ''default'', rl_topPercent = 50, rl_color = ''white'' \<rparr>],
       markers = [], users = [], currentUser = None, jumpHistory = [],
       isUserModalOpen = False, newUserName = [],
       videoRef = None, localStorage = Map.empty, alerts = [] \<rparr>"

subsection \<open>\<^verbatim>\<open>utils/physics.ts\<close>\<close>

definition G :: real where
  "G = 9.80665"

definition calculateJumpHeight :: "real \<Rightarrow> real" where
  "calculateJumpHeight flightTimeSeconds =
     (let heightMeters = (G * flightTimeSeconds ^ 2) / 8
      in heightMeters * 100)"

subsection \<open>Rounding to a double\<close>

text \<open>
  A finite double (IEEE 754 binary64) is an integer multiple of a power of two,
  \<open>n * 2\<^sup>e\<close> with \<open>\<bar>n\<bar> < 2\<^sup>5\<^sup>3\<close> and \<open>e \<ge> -1074\<close>. An arithmetic operation of
  JavaScript returns the double nearest to the exact result, and of two nearest ones the
  one with the even \<open>n\<close>. For \<open>x\<close> with \<open>2\<^sup>a \<le> \<bar>x\<bar> < 2\<^sup>a\<^sup>+\<^sup>1\<close> the doubles
  around \<open>x\<close> are the multiples of \<open>2\<^sup>e\<close> for \<open>e = max (a - 52) (-1074)\<close>, so
  \<open>fl x\<close> is \<open>x / 2\<^sup>e\<close> rounded to the nearest integer, ties to even, times
  \<open>2\<^sup>e\<close>. A result of magnitude \<open>2\<^sup>1\<^sup>0\<^sup>2\<^sup>4\<close> or more stands for the infinity that the
  code returns there.
\<close>

definition round_even :: "real \<Rightarrow> int" where
  "round_even q =
     (let n = \<lfloor>q\<rfloor>; r = q - of_int n
      in if r < 1 / 2 then n else if 1 / 2 < r then n + 1 else if even n then n else n + 1)"

definition emin :: int where
  "emin = - 1074"

definition ulp_exp :: "real \<Rightarrow> int" where
  "ulp_exp x = max (\<lfloor>log 2 \<bar>x\<bar>\<rfloor> - 52) emin"

definition round_at :: "int \<Rightarrow> real \<Rightarrow> real" where
  "round_at e x = of_int (round_even (x / 2 powi e)) * 2 powi e"

definition fl :: "real \<Rightarrow> real" where
  "fl x = (if x = 0 then 0 else round_at (ulp_exp x) x)"

definition is_double :: "real \<Rightarrow> bool" where
  "is_double x = (fl x = x \<and> \<bar>x\<bar> < 2 ^ 1024)"

subsection \<open>The time format of \<^verbatim>\<open>utils/physics.ts\<close>\<close>

text \<open>
  The remainder operator \<^verbatim>\<open>%\<close> of JavaScript takes the sign of the dividend:
  \<open>a % b = a - b * trunc (a / b)\<close>, for \<open>b \<noteq> 0\<close> (the source divides by 60 and by 1).
  The remainder of two doubles is a double, so \<^verbatim>\<open>%\<close> does not round.
\<close>

definition js_trunc :: "real \<Rightarrow> int" where
  "js_trunc x = (if 0 \<le> x then \<lfloor>x\<rfloor> else \<lceil>x\<rceil>)"

definition js_rem :: "real \<Rightarrow> real \<Rightarrow> real" where
  "js_rem a b = a - b * of_int (js_trunc (a / b))"

text \<open>
  \<^verbatim>\<open>toString()\<close> of an integral number of magnitude below \<open>10\<^sup>2\<^sup>1\<close>: its decimal
  digits, after a minus sign when it is negative. From \<open>10\<^sup>2\<^sup>1\<close> on JavaScript prints
  the exponent notation, which is not modelled: the result is \<open>None\<close>.
\<close>

definition digit_char :: "nat \<Rightarrow> char" where
  "digit_char d = ''0123456789'' ! d"

fun digits :: "nat \<Rightarrow> string" where
  "digits n = (if n < 10 then [digit_char n] else digits (n div 10) @ [digit_char (n mod 10)])"

declare digits.simps [simp del]

definition toString :: "int \<Rightarrow> string option" where
  "toString n =
     (if \<bar>n\<bar> < 10 ^ 21
      then Some (if n < 0 then CHR ''-'' # digits (nat (- n)) else digits (nat n))
      else None)"

text \<open>
  \<^verbatim>\<open>s.padStart(targetLength, padString)\<close>: \<open>s\<close> itself when it is long enough (or the
  filler is empty), otherwise the filler repeated and cut to the missing length, then \<open>s\<close>.
\<close>

definition padStart :: "nat \<Rightarrow> string \<Rightarrow> string \<Rightarrow> string" where
  "padStart targetLength padString s =
     (if targetLength \<le> length s \<or> padString = [] then s
      else take (targetLength - length s)
             (concat (replicate (targetLength - length s) padString)) @ s)"

text \<open>
  \<^verbatim>\<open>formatTime\<close> on a double: the quotient \<^verbatim>\<open>seconds / 60\<close> and the product
  \<^verbatim>\<open>(seconds % 1) * 1000\<close> are rounded to a double before \<^verbatim>\<open>Math.floor\<close>.
\<close>

definition formatTime :: "real \<Rightarrow> string option" where
  "formatTime seconds =
     (let m = \<lfloor>fl (seconds / 60)\<rfloor>;
          s = \<lfloor>js_rem seconds 60\<rfloor>;
          ms = \<lfloor>fl (js_rem seconds 1 * 1000)\<rfloor>
      in case (toString m, toString s, toString ms) of
           (Some ma, Some sa, Some msa) \<Rightarrow>
             Some (padStart 2 ''0'' ma @ '':'' @ padStart 2 ''0'' sa @ ''.'' @
                   padStart 3 ''0'' msa)
         | _ \<Rightarrow> None)"

subsection \<open>Playback handlers of \<^verbatim>\<open>App.tsx\<close>\<close>

definition togglePlay :: "AppState \<Rightarrow> AppState" where
  "togglePlay st =
     (case videoRef st of
        None \<Rightarrow> st
      | Some v \<Rightarrow>
          st\<lparr> videoRef := Some (if isPlaying st then v\<lparr> el_paused := True \<rparr>
                                  else v\<lparr> el_paused := False \<rparr>),
              isPlaying := \<not> isPlaying st \<rparr>)"

definition handleTimeUpdate :: "AppState \<Rightarrow> AppState" where
  "handleTimeUpdate st =
     (case videoRef st of
        None \<Rightarrow> st
      | Some v \<Rightarrow> st\<lparr> currentTime := el_currentTime v \<rparr>)"

definition handleLoadedMetadata :: "AppState \<Rightarrow> AppState" where
  "handleLoadedMetadata st =
     (case videoRef st of
        None \<Rightarrow> st
      | Some v \<Rightarrow> st\<lparr> duration := el_duration v \<rparr>)"

definition stepFrames :: "AppState \<Rightarrow> real \<Rightarrow> AppState" where
  "stepFrames st frames =
     (case videoRef st of
        None \<Rightarrow> st
      | Some v \<Rightarrow>
          (let frameTime = 1 / fps st;
               newTime = min (max 0 (el_currentTime v + frames * frameTime)) (el_duration v)
           in st\<lparr> videoRef := Some (v\<lparr> el_paused := True, el_currentTime := newTime \<rparr>),
                  isPlaying := False,
                  currentTime := newTime \<rparr>))"

definition seekTo :: "AppState \<Rightarrow> real \<Rightarrow> AppState" where
  "seekTo st time =
     (case videoRef st of
        None \<Rightarrow> st
      | Some v \<Rightarrow>
          st\<lparr> videoRef := Some (v\<lparr> el_currentTime := time, el_paused := True \<rparr>),
              currentTime := time,
              isPlaying := False \<rparr>)"

text \<open>
  The frame-rate field: \<^verbatim>\<open>setFps(Math.max(1, parseInt(e.target.value) || 0))\<close>. The
  argument is the result of \<^verbatim>\<open>parseInt\<close>, \<open>None\<close> for \<^verbatim>\<open>NaN\<close>; \<^verbatim>\<open>|| 0\<close> replaces
  \<^verbatim>\<open>NaN\<close> (and \<open>0\<close>) by \<open>0\<close>. The preset buttons exist for 30, 60, 120 and 240.
\<close>

definition handleFpsInput :: "AppState \<Rightarrow> int option \<Rightarrow> AppState" where
  "handleFpsInput st parsed =
     st\<lparr> fps := max 1 (case parsed of None \<Rightarrow> 0 | Some k \<Rightarrow> if k = 0 then 0 else of_int k) \<rparr>"

definition fpsPresets :: "real list" where
  "fpsPresets = [30, 60, 120, 240]"

definition selectFpsPreset :: "AppState \<Rightarrow> real \<Rightarrow> AppState" where
  "selectFpsPreset st val = (if val \<in> set fpsPresets then st\<lparr> fps := val \<rparr> else st)"

subsection \<open>Marks and the derived result\<close>

text \<open>
  The two mark buttons run \<^verbatim>\<open>setTakeOffTime(currentTime)\<close> and
  \<^verbatim>\<open>setLandingTime(currentTime)\<close>, and are disabled while \<^verbatim>\<open>videoSrc\<close> is null.
  \<^verbatim>\<open>flightTime\<close> and \<^verbatim>\<open>jumpHeight\<close> are computed from the marks at every render.
\<close>

definition markTakeOff :: "AppState \<Rightarrow> AppState" where
  "markTakeOff st = (if videoSrc st = None then st else st\<lparr> takeOffTime := Some (currentTime st) \<rparr>)"

definition markLanding :: "AppState \<Rightarrow> AppState" where
  "markLanding st = (if videoSrc st = None then st else st\<lparr> landingTime := Some (currentTime st) \<rparr>)"

definition flightTime :: "AppState \<Rightarrow> real" where
  "flightTime st =
     (case (takeOffTime st, landingTime st) of
        (Some a, Some b) \<Rightarrow> max 0 (b - a)
      | _ \<Rightarrow> 0)"

definition jumpHeight :: "AppState \<Rightarrow> real" where
  "jumpHeight st = (if flightTime st > 0 then calculateJumpHeight (flightTime st) else 0)"

subsection \<open>Reference lines\<close>

definition lineColors :: "string list" where
  "lineColors = [''red'', ''blue'', ''green'', ''yellow'']"

definition addLine :: "AppState \<Rightarrow> string \<Rightarrow> AppState" where
  "addLine st newId =
     (let nextColor = lineColors ! (length (lines st) mod length lineColors)
      in st\<lparr> lines := lines st @
                [\<lparr> rl_id = newId,
                   rl_topPercent = 40 + of_nat (length (lines st)) * 5,
                   rl_color = nextColor \<rparr>] \<rparr>)"

definition removeLine :: "AppState \<Rightarrow> string \<Rightarrow> AppState" where
  "removeLine st i = st\<lparr> lines := filter (\<lambda>l. rl_id l \<noteq> i) (lines st) \<rparr>"

text \<open>
  The delete control of a line: \<^verbatim>\<open>onDelete={lines.length > 1 ? removeLine : undefined}\<close>,
  and \<^verbatim>\<open>DraggableLine\<close> renders the button only when \<^verbatim>\<open>onDelete\<close> is defined.
\<close>

definition deleteLine :: "AppState \<Rightarrow> string \<Rightarrow> AppState" where
  "deleteLine st i = (if length (lines st) > 1 then removeLine st i else st)"

subsection \<open>Users and history\<close>

text \<open>
  \<^verbatim>\<open>String.prototype.trim\<close> removes white space and line terminators at both ends; among
  the ASCII characters these are tab, line feed, vertical tab, form feed, carriage return
  and space. \<^verbatim>\<open>!newUserName.trim()\<close> holds when the trimmed string is empty.
\<close>

definition isWhiteSpace :: "char \<Rightarrow> bool" where
  "isWhiteSpace c = (c \<in> set [CHR 0x09, CHR 0x0A, CHR 0x0B, CHR 0x0C, CHR 0x0D, CHR '' ''])"

definition trim :: "string \<Rightarrow> string" where
  "trim s = rev (dropWhile isWhiteSpace (rev (dropWhile isWhiteSpace s)))"

definition handleCreateUser :: "AppState \<Rightarrow> string \<Rightarrow> real \<Rightarrow> AppState" where
  "handleCreateUser st newId now =
     (if trim (newUserName st) = [] then st
      else
        (let newUser = \<lparr> up_id = newId, up_name = newUserName st, up_createdAt = now \<rparr>;
             updatedUsers = users st @ [newUser]
         in st\<lparr> users := updatedUsers,
                currentUser := Some newUser,
                localStorage := (localStorage st)(''jumplab_users'' \<mapsto> StoredUsers updatedUsers),
                newUserName := [],
                isUserModalOpen := False \<rparr>))"

definition handleSwitchUser :: "AppState \<Rightarrow> UserProfile \<Rightarrow> AppState" where
  "handleSwitchUser st user = st\<lparr> currentUser := Some user, isUserModalOpen := False \<rparr>"

definition saveResult :: "AppState \<Rightarrow> string \<Rightarrow> real \<Rightarrow> AppState" where
  "saveResult st newId now =
     (case currentUser st of
        None \<Rightarrow> st
      | Some u \<Rightarrow>
          if flightTime st \<le> 0 then st
          else
            (let record = \<lparr> jr_id = newId, jr_userId = up_id u, jr_date = now,
                            jr_heightCm = jumpHeight st, jr_flightTime = flightTime st,
                            jr_note = None \<rparr>;
                 updatedHistory = record # jumpHistory st
             in st\<lparr> jumpHistory := updatedHistory,
                    localStorage :=
                      (localStorage st)(''jumplab_history'' \<mapsto> StoredHistory updatedHistory),
                    alerts := alerts st @ [AlertSaved] \<rparr>))"

definition deleteHistoryItem :: "AppState \<Rightarrow> string \<Rightarrow> AppState" where
  "deleteHistoryItem st i =
     (let updatedHistory = filter (\<lambda>h. jr_id h \<noteq> i) (jumpHistory st)
      in st\<lparr> jumpHistory := updatedHistory,
             localStorage :=
               (localStorage st)(''jumplab_history'' \<mapsto> StoredHistory updatedHistory) \<rparr>)"

definition setNewUserName :: "AppState \<Rightarrow> string \<Rightarrow> AppState" where
  "setNewUserName st s = st\<lparr> newUserName := s \<rparr>"

subsection \<open>Saving a result, on doubles\<close>

text \<open>
  The computation behind a saved record with every operation rounded as the code rounds
  it: the literal \<^verbatim>\<open>9.80665\<close> is the double nearest to it, \<^verbatim>\<open>Math.pow(t, 2)\<close> is the
  rounded square, and the product with \<^verbatim>\<open>G\<close>, the division by 8, the product with 100
  and the difference of the two marks are rounded each. \<open>saveResult64\<close> is
  \<^verbatim>\<open>saveResult\<close> with these in the place of the exact ones.
\<close>

definition G64 :: real where
  "G64 = fl 9.80665"

definition calculateJumpHeight64 :: "real \<Rightarrow> real" where
  "calculateJumpHeight64 flightTimeSeconds =
     (let heightMeters = fl (fl (G64 * fl (flightTimeSeconds * flightTimeSeconds)) / 8)
      in fl (heightMeters * 100))"

definition flightTime64 :: "AppState \<Rightarrow> real" where
  "flightTime64 st =
     (case (takeOffTime st, landingTime st) of
        (Some a, Some b) \<Rightarrow> max 0 (fl (b - a))
      | _ \<Rightarrow> 0)"

definition jumpHeight64 :: "AppState \<Rightarrow> real" where
  "jumpHeight64 st =
     (if flightTime64 st > 0 then calculateJumpHeight64 (flightTime64 st) else 0)"

definition saveResult64 :: "AppState \<Rightarrow> string \<Rightarrow> real \<Rightarrow> AppState" where
  "saveResult64 st newId now =
     (case currentUser st of
        None \<Rightarrow> st
      | Some u \<Rightarrow>
          if flightTime64 st \<le> 0 then st
          else
            (let record = \<lparr> jr_id = newId, jr_userId = up_id u, jr_date = now,
                            jr_heightCm = jumpHeight64 st, jr_flightTime = flightTime64 st,
                            jr_note = None \<rparr>;
                 updatedHistory = record # jumpHistory st
             in st\<lparr> jumpHistory := updatedHistory,
                    localStorage :=
                      (localStorage st)(''jumplab_history'' \<mapsto> StoredHistory updatedHistory),
                    alerts := alerts st @ [AlertSaved] \<rparr>))"

subsection \<open>Events\<close>

text \<open>
  The user actions and host events handled above, and the state after a sequence of them.
  The component runs one handler at a time. The arguments of \<open>AddLine\<close>,
  \<open>CreateUser\<close> and \<open>SaveResult\<close> are the results of \<^verbatim>\<open>generateId()\<close> and
  \<^verbatim>\<open>Date.now()\<close> in that handler.
\<close>

datatype event =
    TogglePlay
  | TimeUpdate
  | LoadedMetadata
  | StepFrames real
  | SeekTo real
  | FpsInput "int option"
  | FpsPreset real
  | MarkTakeOff
  | MarkLanding
  | AddLine string
  | DeleteLine string
  | TypeUserName string
  | CreateUser string real
  | SwitchUser UserProfile
  | SaveResult string real
  | DeleteHistoryItem string

fun handle :: "AppState \<Rightarrow> event \<Rightarrow> AppState" where
  "handle st TogglePlay = togglePlay st"
| "handle st TimeUpdate = handleTimeUpdate st"
| "handle st LoadedMetadata = handleLoadedMetadata st"
| "handle st (StepFrames n) = stepFrames st n"
| "handle st (SeekTo t) = seekTo st t"
| "handle st (FpsInput p) = handleFpsInput st p"
| "handle st (FpsPreset v) = selectFpsPreset st v"
| "handle st MarkTakeOff = markTakeOff st"
| "handle st MarkLanding = markLanding st"
| "handle st (AddLine i) = addLine st i"
| "handle st (DeleteLine i) = deleteLine st i"
| "handle st (TypeUserName s) = setNewUserName st s"
| "handle st (CreateUser i now) = handleCreateUser st i now"
| "handle st (SwitchUser u) = handleSwitchUser st u"
| "handle st (SaveResult i now) = saveResult st i now"
| "handle st (DeleteHistoryItem i) = deleteHistoryItem st i"

fun run :: "AppState \<Rightarrow> event list \<Rightarrow> AppState" where
  "run st [] = st"
| "run st (e # es) = run (handle st e) es"

subsection \<open>Notions of the specification\<close>

text \<open>Clamping a value to the interval from \<open>lo\<close> to \<open>hi\<close>.\<close>

definition clampTo :: "real \<Rightarrow> real \<Rightarrow> real \<Rightarrow> real" where
  "clampTo lo hi x = (if x < lo then lo else if hi < x then hi else x)"

text \<open>
  The form \<^verbatim>\<open>MM:SS.mmm\<close>: nine characters, two digits, a colon, two digits, a full stop
  and three digits.
\<close>

definition isDigit :: "char \<Rightarrow> bool" where
  "isDigit c = (c \<in> set ''0123456789'')"

definition is_MM_SS_mmm :: "string \<Rightarrow> bool" where
  "is_MM_SS_mmm s =
     (length s = 9 \<and> s ! 2 = CHR '':'' \<and> s ! 5 = CHR ''.'' \<and>
      list_all (\<lambda>i. isDigit (s ! i)) [0, 1, 3, 4, 6, 7, 8])"

text \<open>
  Every \<^verbatim>\<open>generateId()\<close> of an added reference line differs from the ids of the lines
  present when it is added.
\<close>

fun freshLineIds :: "AppState \<Rightarrow> event list \<Rightarrow> bool" where
  "freshLineIds st [] = True"
| "freshLineIds st (e # es) =
     ((case e of AddLine i \<Rightarrow> i \<notin> set (map rl_id (lines st)) | _ \<Rightarrow> True) \<and>
      freshLineIds (handle st e) es)"

text \<open>
  What a saved record satisfies: a positive flight time, the height computed from it,
  and a height that is not negative and is positive exactly when the square of the flight
  time is above \<open>2\<^sup>-\<^sup>1\<^sup>0\<^sup>7\<^sup>5\<close>, half the least positive double, below which the rounded
  square is 0.
\<close>

definition validRecord64 :: "JumpRecord \<Rightarrow> bool" where
  "validRecord64 r =
     (0 < jr_flightTime r \<and>
      jr_heightCm r = calculateJumpHeight64 (jr_flightTime r) \<and>
      0 \<le> jr_heightCm r \<and>
      (0 < jr_heightCm r \<longleftrightarrow> 2 powi (emin - 1) < jr_flightTime r * jr_flightTime r))"

text \<open>
  A state with a video loaded and a current user, and three doubles, for the examples:
  the doubles nearest to 0.15 and to 61.9996, and \<open>2\<^sup>-\<^sup>6\<^sup>0\<^sup>0\<close>, which is about
  \<open>2.4 * 10\<^sup>-\<^sup>1\<^sup>8\<^sup>1\<close>.
\<close>

definition double_0_15 :: real where
  "double_0_15 = 5404319552844595 / 2 ^ 55"

definition double_61_9996 :: real where
  "double_61_9996 = 4362833991517497 / 2 ^ 46"

definition tinyTime :: real where
  "tinyTime = 2 powi (- 600)"

definition guest :: UserProfile where
  "guest = \<lparr> up_id = ''g7k2m9q1x'', up_name = ''Guest'', up_createdAt = 1000 \<rparr>"

definition loadedState :: AppState where
  "loadedState =
     initialState
       \<lparr> videoSrc := Some ''blob:jump'',
         duration := 10,
         users := [guest],
         currentUser := Some guest,
         videoRef := Some \<lparr> el_currentTime = 0, el_duration = 10, el_paused = True,
                             el_playbackRate = 1 \<rparr> \<rparr>"

section \<open>Properties\<close>

subsection \<open>Rounding to a double\<close>

lemma round_even_bounds:
  "of_int (round_even q) \<le> q + 1 / 2 \<and> q - 1 / 2 \<le> of_int (round_even q)"
  unfolding round_even_def Let_def by (auto; linarith)

lemma round_even_of_int: "round_even (of_int n) = n"
  by (simp add: round_even_def)

lemma round_even_mono: "p \<le> q \<Longrightarrow> round_even p \<le> round_even q"
proof -
  assume pq: "p \<le> q"
  then have fq: "\<lfloor>p\<rfloor> \<le> \<lfloor>q\<rfloor>" by (rule floor_mono)
  show ?thesis
  proof (cases "\<lfloor>p\<rfloor> = \<lfloor>q\<rfloor>")
    case True
    with pq show ?thesis
      unfolding round_even_def Let_def by (auto; linarith)
  next
    case False
    with fq have "\<lfloor>p\<rfloor> + 1 \<le> \<lfloor>q\<rfloor>" by simp
    moreover have "round_even p \<le> \<lfloor>p\<rfloor> + 1"
      unfolding round_even_def Let_def by auto
    moreover have "\<lfloor>q\<rfloor> \<le> round_even q"
      unfolding round_even_def Let_def by auto
    ultimately show ?thesis by linarith
  qed
qed

lemma round_even_less: "q < of_int K - 1 / 2 \<Longrightarrow> round_even q \<le> K - 1"
  using round_even_bounds [of q] by linarith

lemma round_even_nonneg: "0 \<le> q \<Longrightarrow> 0 \<le> round_even q"
  using round_even_mono [of 0 q] round_even_of_int [of 0] by simp

lemma pos_mult_iff: "0 < (u::real) \<Longrightarrow> 0 < a * u \<longleftrightarrow> 0 < a"
  by (simp add: zero_less_mult_iff)

lemma pow2_le: "a \<le> b \<Longrightarrow> (2::real) powi a \<le> 2 powi b"
  by (rule power_int_increasing) simp_all

lemma pow2_less_exp: "(2::real) powi a < 2 powi b \<Longrightarrow> a < b"
  using pow2_le [of b a] by (cases "a < b") auto

lemma pow2_split: "(2::real) powi (a + b) = 2 powi a * 2 powi b"
  by (rule power_int_add) simp

lemma pow2_neg: "e \<le> 0 \<Longrightarrow> (2::real) powi e * 2 ^ nat (- e) = 1"
proof -
  assume "e \<le> 0"
  then have "(2::real) ^ nat (- e) = 2 powi (- e)"
    by (simp add: power_int_nonneg_exp)
  then show ?thesis
    using pow2_split [of e "- e"] by simp
qed

lemma floor_log2_eq:
  assumes "0 < x" "2 powi a \<le> x" "x < 2 powi (a + 1)"
  shows "\<lfloor>log 2 x\<rfloor> = a"
proof -
  have "(2::real) powr real_of_int a = 2 powi a"
    by (simp add: powr_real_of_int')
  moreover have "(2::real) powr (real_of_int a + 1) = 2 powi (a + 1)"
    using powr_real_of_int' [of 2 "a + 1"] by simp
  ultimately have "2 powr real_of_int a \<le> x \<and> x < 2 powr (real_of_int a + 1)"
    using assms by simp
  then show ?thesis
    using assms(1) by (simp add: floor_log_eq_powr_iff)
qed

lemma floor_log2_bounds:
  assumes "0 < (x::real)"
  shows "2 powi \<lfloor>log 2 x\<rfloor> \<le> x \<and> x < 2 powi (\<lfloor>log 2 x\<rfloor> + 1)"
proof -
  have "2 powr real_of_int \<lfloor>log 2 x\<rfloor> \<le> x \<and> x < 2 powr (real_of_int \<lfloor>log 2 x\<rfloor> + 1)"
    using assms floor_log_eq_powr_iff [of x 2 "\<lfloor>log 2 x\<rfloor>"] by simp
  moreover have "(2::real) powr real_of_int \<lfloor>log 2 x\<rfloor> = 2 powi \<lfloor>log 2 x\<rfloor>"
    by (simp add: powr_real_of_int')
  moreover have "(2::real) powr (real_of_int \<lfloor>log 2 x\<rfloor> + 1) = 2 powi (\<lfloor>log 2 x\<rfloor> + 1)"
    using powr_real_of_int' [of 2 "\<lfloor>log 2 x\<rfloor> + 1"] by simp
  ultimately show ?thesis
    by simp
qed

lemma ulp_exp_eq:
  assumes "0 < x" "2 powi a \<le> x" "x < 2 powi (a + 1)"
  shows "ulp_exp x = max (a - 52) emin"
  using floor_log2_eq [OF assms] assms(1) by (simp add: ulp_exp_def)

lemma ulp_exp_upper:
  assumes "0 < x" "x < 2 powi b"
  shows "ulp_exp x \<le> max (b - 53) emin"
proof -
  have "2 powi \<lfloor>log 2 x\<rfloor> \<le> x"
    using floor_log2_bounds [OF assms(1)] by simp
  with assms(2) have "(2::real) powi \<lfloor>log 2 x\<rfloor> < 2 powi b"
    by linarith
  then have "\<lfloor>log 2 x\<rfloor> < b"
    by (rule pow2_less_exp)
  then show ?thesis
    using assms(1) by (simp add: ulp_exp_def)
qed

lemma ulp_exp_lower:
  assumes "0 < x" "2 powi b \<le> x"
  shows "b - 52 \<le> ulp_exp x"
proof -
  have "x < 2 powi (\<lfloor>log 2 x\<rfloor> + 1)"
    using floor_log2_bounds [OF assms(1)] by simp
  with assms(2) have "(2::real) powi b < 2 powi (\<lfloor>log 2 x\<rfloor> + 1)"
    by linarith
  then have "b < \<lfloor>log 2 x\<rfloor> + 1"
    by (rule pow2_less_exp)
  then show ?thesis
    using assms(1) by (simp add: ulp_exp_def)
qed

lemma ulp_exp_ge: "emin \<le> ulp_exp x"
  by (simp add: ulp_exp_def)

lemma ulp_le_self:
  assumes "2 powi emin \<le> x"
  shows "2 powi ulp_exp x \<le> x"
proof -
  have "(0::real) < 2 powi emin" by simp
  with assms have pos: "0 < x" by linarith
  have "2 powi \<lfloor>log 2 x\<rfloor> \<le> x"
    using floor_log2_bounds [OF pos] by simp
  moreover have "(2::real) powi (\<lfloor>log 2 x\<rfloor> - 52) \<le> 2 powi \<lfloor>log 2 x\<rfloor>"
    by (rule pow2_le) simp
  ultimately show ?thesis
    using assms pos by (auto simp add: ulp_exp_def max_def)
qed

lemma round_at_fixes: "round_at e (of_int n * 2 powi e) = of_int n * 2 powi e"
  by (simp add: round_at_def round_even_of_int)

lemma round_at_mono: "x \<le> y \<Longrightarrow> round_at e x \<le> round_at e y"
  by (simp add: round_at_def round_even_mono divide_right_mono)

lemma int_as_multiple:
  assumes "e \<le> 0"
  shows "real_of_int n = of_int (n * 2 ^ nat (- e)) * 2 powi e"
  using pow2_neg [OF assms] by (simp add: mult.assoc mult.commute)

lemma round_at_int:
  assumes "e \<le> 0"
  shows "round_at e (of_int n) = of_int n"
proof -
  have "round_at e (of_int (n * 2 ^ nat (- e)) * 2 powi e) = of_int (n * 2 ^ nat (- e)) * 2 powi e"
    by (rule round_at_fixes)
  then show ?thesis
    by (simp only: int_as_multiple [OF assms, symmetric])
qed

lemma fl_0: "fl 0 = 0"
  by (simp add: fl_def)

lemma fl_nonneg: "0 \<le> x \<Longrightarrow> 0 \<le> fl x"
  by (simp add: fl_def round_at_def round_even_nonneg)

lemma fl_between_ints:
  assumes "0 \<le> x" "x < 2 ^ 53"
  shows "of_int \<lfloor>x\<rfloor> \<le> fl x \<and> fl x \<le> of_int \<lceil>x\<rceil>"
proof (cases "x = 0")
  case True
  then show ?thesis by (simp add: fl_0)
next
  case False
  with assms have pos: "0 < x" by simp
  have "x < 2 powi 53"
    using assms by simp
  then have e: "ulp_exp x \<le> 0"
    using ulp_exp_upper [OF pos, of 53] by (simp add: emin_def)
  have "round_at (ulp_exp x) (of_int \<lfloor>x\<rfloor>) \<le> round_at (ulp_exp x) x"
    by (rule round_at_mono) simp
  moreover have "round_at (ulp_exp x) x \<le> round_at (ulp_exp x) (of_int \<lceil>x\<rceil>)"
    by (rule round_at_mono) simp
  ultimately show ?thesis
    using False e by (simp add: fl_def round_at_int)
qed

lemma fl_int: "0 \<le> n \<Longrightarrow> n < 2 ^ 53 \<Longrightarrow> fl (of_int n) = of_int n"
  using fl_between_ints [of "of_int n"] by simp

lemma fl_half:
  assumes "2 powi emin \<le> x"
  shows "x / 2 \<le> fl x"
proof -
  have "(0::real) < 2 powi emin" by simp
  with assms have pos: "0 < x" by linarith
  define u :: real where "u = 2 powi ulp_exp x"
  define q where "q = x / u"
  have u: "0 < u" by (simp add: u_def)
  have "u \<le> x"
    unfolding u_def using assms by (rule ulp_le_self)
  then have q: "1 \<le> q"
    using u by (simp add: q_def le_divide_eq)
  have "q - 1 / 2 \<le> of_int (round_even q)"
    using round_even_bounds [of q] by simp
  with q have "q / 2 \<le> of_int (round_even q)"
    by linarith
  then have "q / 2 * u \<le> of_int (round_even q) * u"
    using u by (simp only: mult_le_cancel_right_pos)
  moreover have "q / 2 * u = x / 2"
    using u by (simp add: q_def)
  moreover have "fl x = of_int (round_even q) * u"
    using pos by (simp add: fl_def round_at_def q_def u_def)
  ultimately show ?thesis
    by simp
qed

lemma fl_pos_iff:
  assumes "0 \<le> x"
  shows "0 < fl x \<longleftrightarrow> 2 powi (emin - 1) < x"
proof -
  have h: "(2::real) powi (emin - 1) = 2 powi emin / 2"
    using pow2_split [of "emin" "- 1"] by simp
  have u: "(0::real) < 2 powi emin" by simp
  show ?thesis
  proof (cases "2 powi emin \<le> x")
    case True
    with u have "0 < x" by linarith
    with fl_half [OF True] have "0 < fl x" by linarith
    moreover have "2 powi emin / 2 < x"
      using True \<open>0 < x\<close> by linarith
    ultimately show ?thesis
      unfolding h by simp
  next
    case False
    then have small: "x < 2 powi emin" by simp
    show ?thesis
    proof (cases "x = 0")
      case True
      have "\<not> 2 powi emin / 2 < (0::real)"
        using u by linarith
      with True show ?thesis
        unfolding h by (simp add: fl_0)
    next
      case nz: False
      with assms have pos: "0 < x" by simp
      have "ulp_exp x \<le> max (emin - 53) emin"
        using ulp_exp_upper [OF pos small] .
      then have e: "ulp_exp x = emin"
        using ulp_exp_ge [of x] by simp
      define q where "q = x / 2 powi emin"
      have q1: "q < 1" using small u by (simp add: q_def divide_less_eq)
      have q0: "0 < q" using pos u by (simp add: q_def)
      then have f: "\<lfloor>q\<rfloor> = 0" using q1 by (simp add: floor_eq_iff)
      have "0 < round_even q \<longleftrightarrow> 1 / 2 < q"
        unfolding round_even_def Let_def f by auto
      moreover have "1 / 2 < q \<longleftrightarrow> 2 powi (emin - 1) < x"
        using u unfolding h q_def by (simp add: less_divide_eq)
      moreover have "0 < fl x \<longleftrightarrow> 0 < round_even q"
      proof -
        have "fl x = of_int (round_even q) * 2 powi emin"
          using nz by (simp add: fl_def e round_at_def q_def)
        then show ?thesis
          using pos_mult_iff [OF u, of "of_int (round_even q)"] by simp
      qed
      ultimately show ?thesis by simp
    qed
  qed
qed

lemma is_double_multiple:
  assumes "is_double t" "t \<noteq> 0"
  shows "t = of_int (round_even (t / 2 powi ulp_exp t)) * 2 powi ulp_exp t"
  using assms by (simp add: is_double_def fl_def round_at_def)

lemma multiple_frac:
  assumes "e \<le> 0" "0 \<le> N"
  shows "real_of_int N * 2 powi e - of_int \<lfloor>real_of_int N * 2 powi e\<rfloor> \<le> 1 - 2 powi e"
proof -
  define K :: int where "K = 2 ^ nat (- e)"
  have K: "0 < K" by (simp add: K_def)
  have u: "(2::real) powi e * of_int K = 1"
    using pow2_neg [OF assms(1)] by (simp add: K_def)
  then have ue: "(2::real) powi e = 1 / of_int K"
    using K by (simp add: field_simps)
  have x: "real_of_int N * 2 powi e = real_of_int N / of_int K"
    by (simp add: ue)
  have fq: "\<lfloor>real_of_int N / of_int K\<rfloor> = N div K"
    by (rule floor_divide_of_int_eq)
  have "N mod K \<le> K - 1"
    using K by (simp add: pos_mod_bound zle_diff1_eq)
  then have "real_of_int (N mod K) \<le> of_int K - 1"
    by (metis of_int_1 of_int_diff of_int_le_iff)
  then have m: "real_of_int (N mod K) / of_int K \<le> 1 - 1 / of_int K"
    using K by (simp add: field_simps)
  have "real_of_int N = of_int (N div K) * of_int K + of_int (N mod K)"
    by (metis of_int_add of_int_mult div_mult_mod_eq)
  then have "real_of_int N / of_int K = (of_int (N div K) * of_int K + of_int (N mod K)) / of_int K"
    by simp
  also have "\<dots> = of_int (N div K) + real_of_int (N mod K) / of_int K"
    using K by (simp add: add_divide_distrib)
  finally have "real_of_int N / of_int K - of_int (N div K) = real_of_int (N mod K) / of_int K"
    by simp
  with m have "real_of_int N / of_int K - of_int \<lfloor>real_of_int N / of_int K\<rfloor> \<le> 1 - 1 / of_int K"
    by (simp only: fq)
  then show ?thesis
    unfolding x by (simp add: ue)
qed

lemma double_frac:
  assumes "is_double t" "0 \<le> t"
  shows "t - of_int \<lfloor>t\<rfloor> \<le> 1 - 2 powi (- 53)"
proof (cases "t < 1 / 2")
  case True
  with assms(2) have "\<lfloor>t\<rfloor> = 0" by (simp add: floor_eq_iff)
  moreover have "(2::real) powi (- 53) \<le> 2 powi (- 1)"
    by (rule pow2_le) simp
  then have "(2::real) powi (- 53) \<le> 1 / 2"
    by simp
  ultimately show ?thesis
    using True by simp
next
  case False
  then have half: "2 powi (- 1) \<le> t" by simp
  moreover have "(0::real) < 2 powi (- 1)" by simp
  ultimately have pos: "0 < t" by linarith
  define e where "e = ulp_exp t"
  define N where "N = round_even (t / 2 powi e)"
  have t: "t = of_int N * 2 powi e"
    unfolding N_def e_def using assms(1) pos by (intro is_double_multiple) simp_all
  have e53: "- 53 \<le> e"
    unfolding e_def using ulp_exp_lower [OF pos half] by simp
  have N0: "0 \<le> N"
    unfolding N_def using pos by (intro round_even_nonneg) simp
  show ?thesis
  proof (cases "e \<le> 0")
    case True
    have "t - of_int \<lfloor>t\<rfloor> \<le> 1 - 2 powi e"
      using multiple_frac [OF True N0] unfolding t [symmetric] .
    moreover have "(2::real) powi (- 53) \<le> 2 powi e"
      using e53 by (rule pow2_le)
    ultimately show ?thesis by linarith
  next
    case False
    then have "0 \<le> e" by simp
    then have "(2::real) powi e = of_int (2 ^ nat e)"
      by (simp add: power_int_nonneg_exp)
    then have "t = of_int (N * 2 ^ nat e)"
      using t by simp
    then have "t - of_int \<lfloor>t\<rfloor> = 0"
      by (metis floor_of_int diff_self)
    moreover have "(2::real) powi (- 53) \<le> 2 powi 0"
      by (rule pow2_le) simp
    ultimately show ?thesis by simp
  qed
qed


lemma fl_less_int:
  assumes "0 < y" and "ulp_exp y \<le> 0" and "y + 2 powi ulp_exp y / 2 < of_int k"
  shows "fl y < of_int k"
proof -
  define e where "e = ulp_exp y"
  define u :: real where "u = 2 powi e"
  define K where "K = k * 2 ^ nat (- e)"
  have u: "0 < u" by (simp add: u_def)
  have e: "e \<le> 0" using assms(2) by (simp add: e_def)
  have k: "real_of_int k = of_int K * u"
    unfolding K_def u_def using e by (rule int_as_multiple)
  have "y + u / 2 < of_int K * u"
    using assms(3) unfolding e_def [symmetric] u_def [symmetric] k .
  then have "(y + u / 2) / u < of_int K"
    using u by (simp add: divide_less_eq)
  then have "y / u < of_int K - 1 / 2"
    using u by (simp add: add_divide_distrib)
  then have "round_even (y / u) \<le> K - 1"
    by (rule round_even_less)
  then have "real_of_int (round_even (y / u)) \<le> of_int K - 1"
    by (metis of_int_1 of_int_diff of_int_le_iff)
  then have "real_of_int (round_even (y / u)) * u \<le> (of_int K - 1) * u"
    using u by (simp only: mult_le_cancel_right_pos)
  also have "\<dots> = of_int k - u"
    by (simp add: k algebra_simps)
  also have "\<dots> < of_int k"
    using u by simp
  finally show ?thesis
    using assms(1) by (simp add: fl_def round_at_def e_def u_def)
qed

lemma fl_millis_bound:
  assumes "is_double t" "0 \<le> t"
  shows "0 \<le> fl ((t - of_int \<lfloor>t\<rfloor>) * 1000) \<and> fl ((t - of_int \<lfloor>t\<rfloor>) * 1000) < 1000"
proof -
  define y where "y = (t - of_int \<lfloor>t\<rfloor>) * 1000"
  have f: "t - of_int \<lfloor>t\<rfloor> \<le> 1 - 2 powi (- 53)"
    using assms by (rule double_frac)
  have y0: "0 \<le> y"
    by (simp add: y_def)
  have y1: "y \<le> 1000 - 1000 * 2 powi (- 53)"
    using f by (simp add: y_def)
  have "fl y < of_int 1000"
  proof (cases "y = 0")
    case True
    then show ?thesis by (simp add: fl_0)
  next
    case False
    with y0 have pos: "0 < y" by simp
    have "y < 2 powi 10"
      using y1 by simp
    then have e: "ulp_exp y \<le> - 43"
      using ulp_exp_upper [OF pos, of 10] by (simp add: emin_def)
    then have "(2::real) powi ulp_exp y \<le> 2 powi (- 43)"
      by (rule pow2_le)
    then have "y + 2 powi ulp_exp y / 2 < of_int 1000"
      using y1 by simp
    moreover from e have "ulp_exp y \<le> 0" by simp
    ultimately show ?thesis
      using pos by (intro fl_less_int)
  qed
  then show ?thesis
    using y0 by (simp add: y_def fl_nonneg)
qed

lemma fl_millis_floor:
  assumes "is_double t" "0 \<le> t"
  shows "\<lfloor>(t - of_int \<lfloor>t\<rfloor>) * 1000\<rfloor> \<le> \<lfloor>fl ((t - of_int \<lfloor>t\<rfloor>) * 1000)\<rfloor> \<and>
         \<lfloor>fl ((t - of_int \<lfloor>t\<rfloor>) * 1000)\<rfloor> \<le> \<lceil>(t - of_int \<lfloor>t\<rfloor>) * 1000\<rceil> \<and>
         \<lfloor>fl ((t - of_int \<lfloor>t\<rfloor>) * 1000)\<rfloor> \<le> 999"
proof -
  define y where "y = (t - of_int \<lfloor>t\<rfloor>) * 1000"
  have y0: "0 \<le> y" by (simp add: y_def)
  have "t - of_int \<lfloor>t\<rfloor> < 1" by linarith
  then have "y < 2 ^ 53" by (simp add: y_def)
  with y0 have b: "of_int \<lfloor>y\<rfloor> \<le> fl y \<and> fl y \<le> of_int \<lceil>y\<rceil>"
    by (rule fl_between_ints)
  then have "\<lfloor>y\<rfloor> \<le> \<lfloor>fl y\<rfloor>"
    by (simp add: le_floor_iff)
  moreover from b have "\<lfloor>fl y\<rfloor> \<le> \<lceil>y\<rceil>"
    by (meson floor_le_iff le_less_trans less_add_one order.trans of_int_floor_le of_int_le_iff)
  moreover have "fl y < 1000"
    using fl_millis_bound [OF assms] by (simp add: y_def)
  then have "\<lfloor>fl y\<rfloor> \<le> 999"
    by (simp add: floor_le_iff)
  ultimately show ?thesis
    by (simp add: y_def)
qed

lemma fl_minutes:
  assumes d: "is_double t" and t0: "0 \<le> t" and t53: "t < 2 ^ 53"
  shows "\<lfloor>fl (t / 60)\<rfloor> = \<lfloor>t / 60\<rfloor>"
proof -
  define y where "y = t / 60"
  define k where "k = \<lfloor>y\<rfloor> + 1"
  have y0: "0 \<le> y" using t0 by (simp add: y_def)
  have y53: "y < 2 ^ 53" using t0 t53 by (simp add: y_def)
  have lower: "of_int \<lfloor>y\<rfloor> \<le> fl y"
    using fl_between_ints [OF y0 y53] by simp
  have yk: "y < of_int k"
    unfolding k_def by linarith
  have "fl y < of_int k"
  proof (cases "t < 32")
    case True
    show ?thesis
    proof (cases "y = 0")
      case True
      with yk show ?thesis by (simp add: fl_0)
    next
      case False
      with y0 have pos: "0 < y" by simp
      have y1: "y \<le> 8 / 15" using True by (simp add: y_def)
      then have "y < 2 powi 0" by simp
      then have e: "ulp_exp y \<le> - 53"
        using ulp_exp_upper [OF pos, of 0] by (simp add: emin_def)
      then have "(2::real) powi ulp_exp y \<le> 2 powi (- 53)"
        by (rule pow2_le)
      then have "y + 2 powi ulp_exp y / 2 < 1"
        using y1 by simp
      moreover have "1 \<le> real_of_int k"
      proof -
        have "0 \<le> \<lfloor>y\<rfloor>" using y0 by simp
        then have "1 \<le> k" by (simp add: k_def)
        then show ?thesis by simp
      qed
      ultimately have "y + 2 powi ulp_exp y / 2 < of_int k"
        by linarith
      moreover from e have "ulp_exp y \<le> 0" by simp
      ultimately show ?thesis
        using pos by (intro fl_less_int)
    qed
  next
    case False
    then have t32: "2 powi 5 \<le> t" by simp
    moreover have "(0::real) < 2 powi 5" by simp
    ultimately have tpos: "0 < t" by linarith
    then have pos: "0 < y" by (simp add: y_def)
    define a where "a = \<lfloor>log 2 t\<rfloor>"
    have a: "2 powi a \<le> t" "t < 2 powi (a + 1)"
      using floor_log2_bounds [OF tpos] by (simp_all add: a_def)
    have a5: "5 \<le> a"
    proof -
      have "(2::real) powi 5 < 2 powi (a + 1)"
        using t32 a(2) by linarith
      then have "5 < a + 1" by (rule pow2_less_exp)
      then show ?thesis by simp
    qed
    have a52: "a \<le> 52"
    proof -
      have "(2::real) powi a < 2 powi 53"
        using a(1) t53 by simp
      then have "a < 53" by (rule pow2_less_exp)
      then show ?thesis by simp
    qed
    define e where "e = a - 52"
    have et: "ulp_exp t = e"
      using ulp_exp_eq [OF tpos a] a5 by (simp add: e_def emin_def)
    have e0: "e \<le> 0" using a52 by (simp add: e_def)
    define u :: real where "u = 2 powi e"
    have u: "0 < u" by (simp add: u_def)
    define N where "N = round_even (t / u)"
    have tN: "t = of_int N * u"
      unfolding N_def u_def et [symmetric] using d tpos by (intro is_double_multiple) simp_all
    define M where "M = 60 * k * 2 ^ nat (- e)"
    have kM: "real_of_int (60 * k) = of_int M * u"
      unfolding M_def u_def using e0 by (rule int_as_multiple)
    have "t < 60 * of_int k"
      using yk by (simp add: y_def)
    then have "of_int N * u < of_int M * u"
      using tN kM by simp
    then have "real_of_int N < of_int M"
      using u by (simp only: mult_less_cancel_right_pos)
    then have "N + 1 \<le> M" by simp
    then have "real_of_int (N + 1) \<le> of_int M"
      by (simp only: of_int_le_iff)
    then have "real_of_int (N + 1) * u \<le> of_int M * u"
      using u by (simp only: mult_le_cancel_right_pos)
    then have step: "t + u \<le> 60 * of_int k"
      using tN kM by (simp add: algebra_simps)
    have "t / 60 < t / 32"
      using tpos by simp
    also have "\<dots> = t * 2 powi (- 5)" by simp
    also have "\<dots> < 2 powi (a + 1) * 2 powi (- 5)"
      using a(2) by simp
    also have "\<dots> = 2 powi (a - 4)"
      using pow2_split [of "a + 1" "- 5"] by simp
    finally have "y < 2 powi (a - 4)"
      by (simp add: y_def)
    then have "ulp_exp y \<le> max (a - 4 - 53) emin"
      by (rule ulp_exp_upper [OF pos])
    then have ey: "ulp_exp y \<le> e - 5"
      using a5 by (simp add: e_def emin_def)
    then have "(2::real) powi ulp_exp y \<le> 2 powi (e - 5)"
      by (rule pow2_le)
    also have "\<dots> = u / 32"
      using pow2_split [of e "- 5"] by (simp add: u_def)
    finally have "2 powi ulp_exp y / 2 \<le> u / 64"
      by simp
    moreover have "y + u / 60 \<le> of_int k"
      using step by (simp add: y_def)
    moreover have "u / 64 < u / 60"
      using u by simp
    ultimately have "y + 2 powi ulp_exp y / 2 < of_int k"
      by linarith
    moreover have "ulp_exp y \<le> 0"
      using ey e0 by simp
    ultimately show ?thesis
      using pos by (intro fl_less_int)
  qed
  then have "\<lfloor>fl y\<rfloor> < k"
    by (simp add: floor_less_iff)
  moreover have "\<lfloor>y\<rfloor> \<le> \<lfloor>fl y\<rfloor>"
    using lower by (simp add: le_floor_iff)
  ultimately show ?thesis
    by (simp add: k_def y_def)
qed

subsection \<open>Arithmetic of the time format\<close>

lemma js_rem_nonneg: "0 \<le> a \<Longrightarrow> 0 < b \<Longrightarrow> js_rem a b = a - b * of_int \<lfloor>a / b\<rfloor>"
  by (simp add: js_rem_def js_trunc_def)

lemma floor_js_rem_60:
  assumes "0 \<le> t"
  shows "\<lfloor>js_rem t 60\<rfloor> = \<lfloor>t\<rfloor> mod 60"
proof -
  have "js_rem t 60 = t - of_int (60 * \<lfloor>t / 60\<rfloor>)"
    using assms by (simp add: js_rem_nonneg)
  then have "\<lfloor>js_rem t 60\<rfloor> = \<lfloor>t\<rfloor> - 60 * \<lfloor>t / 60\<rfloor>"
    by (simp only: floor_diff_of_int)
  moreover have "\<lfloor>t / 60\<rfloor> = \<lfloor>t\<rfloor> div 60"
    using floor_divide_real_eq_div [of 60 t] by simp
  ultimately show ?thesis
    by (simp add: minus_mult_div_eq_mod)
qed

lemma floor_js_rem_1:
  assumes "0 \<le> t"
  shows "\<lfloor>js_rem t 1 * 1000\<rfloor> = \<lfloor>t * 1000\<rfloor> mod 1000"
proof -
  have "js_rem t 1 * 1000 = t * 1000 - of_int (1000 * \<lfloor>t\<rfloor>)"
    using assms by (simp add: js_rem_nonneg algebra_simps)
  then have "\<lfloor>js_rem t 1 * 1000\<rfloor> = \<lfloor>t * 1000\<rfloor> - 1000 * \<lfloor>t\<rfloor>"
    by (simp only: floor_diff_of_int)
  moreover have "\<lfloor>t\<rfloor> = \<lfloor>t * 1000\<rfloor> div 1000"
    using floor_divide_real_eq_div [of 1000 "t * 1000"] by simp
  ultimately show ?thesis
    by (simp add: minus_mult_div_eq_mod)
qed

subsection \<open>Digits and padding\<close>

lemma digit_char_0: "digit_char 0 = CHR ''0''"
  by (simp add: digit_char_def)

lemma isDigit_digit_char:
  assumes "d < 10"
  shows "isDigit (digit_char d)"
proof -
  have "d \<in> {0, 1, 2, 3, 4, 5, 6, 7, 8, 9}"
    using assms by auto
  then show ?thesis
    by (auto simp add: isDigit_def digit_char_def)
qed

lemma digits_lt_10: "n < 10 \<Longrightarrow> digits n = [digit_char n]"
  by (simp add: digits.simps)

lemma digits_lt_100:
  "10 \<le> n \<Longrightarrow> n < 100 \<Longrightarrow> digits n = [digit_char (n div 10), digit_char (n mod 10)]"
  by (subst digits.simps) (simp add: digits_lt_10)

lemma digits_lt_1000:
  assumes "100 \<le> n" "n < 1000"
  shows "digits n = [digit_char (n div 100), digit_char (n div 10 mod 10), digit_char (n mod 10)]"
proof -
  have "n div 10 div 10 = n div 100"
    by (simp add: div_mult2_eq [symmetric])
  moreover have "10 \<le> n div 10" "n div 10 < 100"
    using assms by auto
  ultimately show ?thesis
    using assms by (subst digits.simps) (simp add: digits_lt_100)
qed

lemma length_digits_pos: "0 < length (digits n)"
  by (subst digits.simps) simp

lemma length_digits_ge2: "10 \<le> n \<Longrightarrow> 2 \<le> length (digits n)"
  using length_digits_pos [of "n div 10"] by (subst digits.simps) (simp add: Suc_le_eq)

lemma length_digits_ge3: "100 \<le> n \<Longrightarrow> 3 \<le> length (digits n)"
  using length_digits_ge2 [of "n div 10"] by (subst digits.simps) simp

lemma digits_all_isDigit: "list_all isDigit (digits n)"
proof (induction n rule: digits.induct)
  case (1 n)
  show ?case
  proof (cases "n < 10")
    case True
    then show ?thesis
      by (simp add: digits_lt_10 isDigit_digit_char)
  next
    case False
    then have "list_all isDigit (digits (n div 10))"
      using "1.IH" by simp
    with False show ?thesis
      by (subst digits.simps) (simp add: isDigit_digit_char)
  qed
qed

lemma padStart_long: "n \<le> length s \<Longrightarrow> padStart n p s = s"
  by (simp add: padStart_def)

lemma length_padStart_ge: "n \<le> length (padStart n ''0'' s)"
  by (simp add: padStart_def)

lemma pad2:
  "n < 100 \<Longrightarrow> padStart 2 ''0'' (digits n) = [digit_char (n div 10), digit_char (n mod 10)]"
  by (cases "n < 10")
    (simp_all add: padStart_def digits_lt_10 digits_lt_100 digit_char_0 numeral_2_eq_2)

lemma pad3:
  assumes "n < 1000"
  shows "padStart 3 ''0'' (digits n) =
         [digit_char (n div 100), digit_char (n div 10 mod 10), digit_char (n mod 10)]"
proof -
  consider "n < 10" | "10 \<le> n" "n < 100" | "100 \<le> n"
    by linarith
  then show ?thesis
  proof cases
    case 1
    then show ?thesis
      by (simp add: padStart_def digits_lt_10 digit_char_0 numeral_3_eq_3)
  next
    case 2
    then show ?thesis
      by (simp add: padStart_def digits_lt_100 digit_char_0 numeral_3_eq_3)
  next
    case 3
    then show ?thesis
      using assms by (simp add: padStart_def digits_lt_1000)
  qed
qed

lemma pad2_ge: "10 \<le> n \<Longrightarrow> padStart 2 ''0'' (digits n) = digits n"
  using length_digits_ge2 [of n] by (simp add: padStart_def)

lemma padStart_digits: "list_all isDigit s \<Longrightarrow> list_all isDigit (padStart n ''0'' s)"
  by (auto simp add: padStart_def list_all_iff isDigit_def dest!: in_set_takeD)

subsection \<open>Jump height\<close>

lemma calculateJumpHeight_pos: "0 < t \<Longrightarrow> 0 < calculateJumpHeight t"
  by (simp add: calculateJumpHeight_def G_def)

text \<open>
  C1. For every flight time \<open>t\<close> in seconds, \<open>calculateJumpHeight t\<close> is
  \<open>(g * t\<^sup>2) / 8 * 100\<close> centimetres with \<open>g = 9.80665\<close>, that is \<open>122.583125 * t\<^sup>2\<close>.
  At \<open>t = 0.5\<close> the height is \<open>30.64578125\<close>, which is \<open>30.65\<close> to two decimal places.
  The function is total on the reals.
\<close>

theorem calculateJumpHeight_formula:
  "calculateJumpHeight t = (9.80665 * t\<^sup>2) / 8 * 100 \<and>
   calculateJumpHeight t = 122.583125 * t\<^sup>2 \<and>
   calculateJumpHeight 0.5 = 30.64578125 \<and>
   \<bar>calculateJumpHeight 0.5 - 30.65\<bar> < 0.005"
  by (simp add: calculateJumpHeight_def G_def power2_eq_square)

subsection \<open>Flight time and height of the session\<close>

lemma flightTime_nonneg: "0 \<le> flightTime st"
  by (simp add: flightTime_def split: option.splits)

text \<open>
  C2. When both marks are set, to \<open>a\<close> (take-off) and \<open>b\<close> (landing), the flight time is
  \<open>max 0 (b - a)\<close>; when one of them is unset it is \<open>0\<close>; it is never negative. The
  height is the physics formula at the flight time when the flight time is positive (and
  is then positive itself), and the sentinel \<open>0\<close> otherwise.
\<close>

theorem flightTime_derived:
  "(takeOffTime st = Some a \<and> landingTime st = Some b \<longrightarrow> flightTime st = max 0 (b - a)) \<and>
   (takeOffTime st = None \<or> landingTime st = None \<longrightarrow> flightTime st = 0) \<and>
   0 \<le> flightTime st \<and>
   (0 < flightTime st \<longrightarrow>
      jumpHeight st = calculateJumpHeight (flightTime st) \<and> 0 < jumpHeight st) \<and>
   (flightTime st \<le> 0 \<longrightarrow> jumpHeight st = 0)"
proof -
  have "0 < flightTime st \<Longrightarrow> 0 < jumpHeight st"
    by (simp add: jumpHeight_def calculateJumpHeight_pos)
  moreover have "flightTime st \<le> 0 \<Longrightarrow> jumpHeight st = 0"
    by (simp add: jumpHeight_def)
  moreover have "0 < flightTime st \<Longrightarrow> jumpHeight st = calculateJumpHeight (flightTime st)"
    by (simp add: jumpHeight_def)
  moreover have "takeOffTime st = Some a \<and> landingTime st = Some b \<longrightarrow> flightTime st = max 0 (b - a)"
    by (simp add: flightTime_def)
  moreover have "takeOffTime st = None \<or> landingTime st = None \<longrightarrow> flightTime st = 0"
    by (auto simp add: flightTime_def split: option.splits)
  ultimately show ?thesis
    using flightTime_nonneg [of st] by blast
qed

theorem flightTime_derived_witness:
  "flightTime (loadedState\<lparr> takeOffTime := Some 1, landingTime := Some 1.5 \<rparr>) = 0.5 \<and>
   jumpHeight (loadedState\<lparr> takeOffTime := Some 1, landingTime := Some 1.5 \<rparr>) = 30.64578125 \<and>
   flightTime (loadedState\<lparr> takeOffTime := Some 2, landingTime := Some 1 \<rparr>) = 0 \<and>
   jumpHeight (loadedState\<lparr> takeOffTime := Some 2, landingTime := Some 1 \<rparr>) = 0 \<and>
   flightTime (loadedState\<lparr> takeOffTime := Some 1, landingTime := None \<rparr>) = 0 \<and>
   jumpHeight (loadedState\<lparr> takeOffTime := Some 1, landingTime := None \<rparr>) = 0"
proof -
  let ?s1 = "loadedState\<lparr> takeOffTime := Some 1, landingTime := Some 1.5 \<rparr>"
  let ?s2 = "loadedState\<lparr> takeOffTime := Some 2, landingTime := Some 1 \<rparr>"
  let ?s3 = "loadedState\<lparr> takeOffTime := Some 1, landingTime := None \<rparr>"
  have "takeOffTime ?s1 = Some 1 \<and> landingTime ?s1 = Some 1.5"
    by simp
  with flightTime_derived [of ?s1 1 "1.5"] have "flightTime ?s1 = max 0 (1.5 - 1)"
    by blast
  then have f1: "flightTime ?s1 = 0.5"
    by simp
  then have "0 < flightTime ?s1"
    by simp
  with flightTime_derived [of ?s1 1 "1.5"]
  have "jumpHeight ?s1 = calculateJumpHeight (flightTime ?s1)"
    by blast
  moreover have "calculateJumpHeight 0.5 = 30.64578125"
    by (simp add: calculateJumpHeight_def G_def power2_eq_square)
  ultimately have h1: "jumpHeight ?s1 = 30.64578125"
    by (simp only: f1)
  have "takeOffTime ?s2 = Some 2 \<and> landingTime ?s2 = Some 1"
    by simp
  with flightTime_derived [of ?s2 2 1] have "flightTime ?s2 = max 0 (1 - 2)"
    by blast
  then have f2: "flightTime ?s2 = 0"
    by simp
  with flightTime_derived [of ?s2 2 1] have h2: "jumpHeight ?s2 = 0"
    by simp
  have "takeOffTime ?s3 = None \<or> landingTime ?s3 = None"
    by simp
  with flightTime_derived [of ?s3 1 0] have f3: "flightTime ?s3 = 0"
    by blast
  with flightTime_derived [of ?s3 1 0] have h3: "jumpHeight ?s3 = 0"
    by simp
  from f1 h1 f2 h2 f3 h3 show ?thesis
    by blast
qed

subsection \<open>The time format on doubles\<close>

lemma toString_nonneg: "0 \<le> k \<Longrightarrow> k < 10 ^ 21 \<Longrightarrow> toString k = Some (digits (nat k))"
  by (simp add: toString_def)

lemma js_rem_1: "0 \<le> t \<Longrightarrow> js_rem t 1 = t - of_int \<lfloor>t\<rfloor>"
  by (simp add: js_rem_nonneg)

lemma fl_eval:
  assumes "0 < x" and "2 powi a \<le> x" and "x < 2 powi (a + 1)" and "emin \<le> a - 52"
  shows "fl x = of_int (round_even (x * 2 powi (52 - a))) * 2 powi (a - 52)"
proof -
  have "ulp_exp x = a - 52"
    using ulp_exp_eq [OF assms(1-3)] assms(4) by simp
  moreover have "x / 2 powi (a - 52) = x * 2 powi (52 - a)"
    using power_int_minus [of "2::real" "a - 52"] by (simp add: field_simps)
  ultimately show ?thesis
    using assms(1) by (simp add: fl_def round_at_def)
qed

lemma formatTime_double:
  assumes "is_double t" and "0 \<le> t" and "t < 2 ^ 53"
  shows "formatTime t =
         Some (padStart 2 ''0'' (digits (nat \<lfloor>t / 60\<rfloor>)) @ '':'' @
               padStart 2 ''0'' (digits (nat \<lfloor>t\<rfloor> mod 60)) @ ''.'' @
               padStart 3 ''0'' (digits (nat \<lfloor>fl ((t - of_int \<lfloor>t\<rfloor>) * 1000)\<rfloor>)))"
proof -
  have m: "\<lfloor>fl (t / 60)\<rfloor> = \<lfloor>t / 60\<rfloor>"
    using assms by (rule fl_minutes)
  have "t / 60 < 2 ^ 53"
    using assms(2,3) by simp
  then have "\<lfloor>t / 60\<rfloor> < 2 ^ 53"
    by (simp add: floor_less_iff)
  then have m21: "\<lfloor>t / 60\<rfloor> < 10 ^ 21"
    by simp
  have m0: "0 \<le> \<lfloor>t / 60\<rfloor>"
    using assms(2) by simp
  have s: "\<lfloor>js_rem t 60\<rfloor> = \<lfloor>t\<rfloor> mod 60"
    using assms(2) by (rule floor_js_rem_60)
  have s0: "0 \<le> \<lfloor>t\<rfloor> mod 60"
    by simp
  have "\<lfloor>t\<rfloor> mod 60 < 60"
    by simp
  moreover have "(60::int) < 10 ^ 21"
    by simp
  ultimately have s21: "\<lfloor>t\<rfloor> mod 60 < 10 ^ 21"
    by (rule less_trans)
  have sn: "nat (\<lfloor>t\<rfloor> mod 60) = nat \<lfloor>t\<rfloor> mod 60"
    using assms(2) by (simp add: nat_mod_distrib)
  have ms: "0 \<le> \<lfloor>fl ((t - of_int \<lfloor>t\<rfloor>) * 1000)\<rfloor>" "\<lfloor>fl ((t - of_int \<lfloor>t\<rfloor>) * 1000)\<rfloor> < 10 ^ 21"
    using fl_millis_bound [OF assms(1,2)] fl_millis_floor [OF assms(1,2)] by simp_all
  have tm: "toString \<lfloor>t / 60\<rfloor> = Some (digits (nat \<lfloor>t / 60\<rfloor>))"
    using m0 m21 by (rule toString_nonneg)
  have ts: "toString (\<lfloor>t\<rfloor> mod 60) = Some (digits (nat \<lfloor>t\<rfloor> mod 60))"
    using toString_nonneg [OF s0 s21] by (simp only: sn)
  have tms: "toString \<lfloor>fl ((t - of_int \<lfloor>t\<rfloor>) * 1000)\<rfloor> =
      Some (digits (nat \<lfloor>fl ((t - of_int \<lfloor>t\<rfloor>) * 1000)\<rfloor>))"
    using ms by (rule toString_nonneg)
  show ?thesis
    unfolding formatTime_def Let_def m s js_rem_1 [OF assms(2)] tm ts tms
    by simp
qed

lemma formatTime_fields:
  assumes "is_double t" and "0 \<le> t" and "t < 2 ^ 53"
  shows "formatTime t =
         Some (padStart 2 ''0'' (digits (nat \<lfloor>t / 60\<rfloor>)) @
           [CHR '':'',
            digit_char (nat \<lfloor>t\<rfloor> mod 60 div 10), digit_char (nat \<lfloor>t\<rfloor> mod 60 mod 10),
            CHR ''.'',
            digit_char (nat \<lfloor>fl ((t - of_int \<lfloor>t\<rfloor>) * 1000)\<rfloor> div 100),
            digit_char (nat \<lfloor>fl ((t - of_int \<lfloor>t\<rfloor>) * 1000)\<rfloor> div 10 mod 10),
            digit_char (nat \<lfloor>fl ((t - of_int \<lfloor>t\<rfloor>) * 1000)\<rfloor> mod 10)])"
proof -
  have "\<lfloor>fl ((t - of_int \<lfloor>t\<rfloor>) * 1000)\<rfloor> \<le> 999"
    using fl_millis_floor [OF assms(1,2)] by simp
  then have "nat \<lfloor>fl ((t - of_int \<lfloor>t\<rfloor>) * 1000)\<rfloor> < 1000"
    by linarith
  then show ?thesis
    by (simp add: formatTime_double [OF assms] pad2 pad3)
qed

lemma minutes_lt_100:
  assumes "0 \<le> (t::real)" "t < 6000"
  shows "nat \<lfloor>t / 60\<rfloor> < 100"
proof -
  have "t / 60 < 100"
    using assms by simp
  then have "\<lfloor>t / 60\<rfloor> < 100"
    by (simp add: floor_less_iff)
  then show ?thesis
    by linarith
qed

lemma minutes_ge_100:
  assumes "6000 \<le> (t::real)"
  shows "100 \<le> nat \<lfloor>t / 60\<rfloor>"
proof -
  have "100 \<le> t / 60"
    using assms by simp
  then have "100 \<le> \<lfloor>t / 60\<rfloor>"
    by (simp add: le_floor_iff)
  then show ?thesis
    by linarith
qed

lemma formatTime_form:
  assumes "is_double t" and "0 \<le> t" and "t < 2 ^ 53"
  shows "map_option is_MM_SS_mmm (formatTime t) = Some (t < 6000)"
proof (cases "t < 6000")
  case True
  have "nat \<lfloor>fl ((t - of_int \<lfloor>t\<rfloor>) * 1000)\<rfloor> < 1000"
    using fl_millis_floor [OF assms(1,2)] by linarith
  with True minutes_lt_100 [OF assms(2) True] show ?thesis
    by (simp add: formatTime_fields [OF assms] pad2 is_MM_SS_mmm_def isDigit_digit_char)
next
  case False
  then have "3 \<le> length (padStart 2 ''0'' (digits (nat \<lfloor>t / 60\<rfloor>)))"
    using minutes_ge_100 [of t] length_digits_ge3 [of "nat \<lfloor>t / 60\<rfloor>"]
    by (simp add: pad2_ge)
  with False show ?thesis
    by (simp add: formatTime_fields [OF assms] is_MM_SS_mmm_def)
qed

lemma is_double_6000: "is_double 6000"
  using fl_int [of 6000] by (simp add: is_double_def)

lemma is_double_0_15: "is_double double_0_15"
proof -
  have "fl double_0_15 = double_0_15"
    unfolding double_0_15_def
    by (subst fl_eval [where a = "- 3"]) (simp_all add: emin_def round_even_def)
  then show ?thesis
    by (simp add: is_double_def double_0_15_def)
qed

lemma fl_61_9996: "fl 61.9996 = double_61_9996"
  unfolding double_61_9996_def
  by (subst fl_eval [where a = 5]) (simp_all add: emin_def round_even_def)

lemma is_double_61_9996: "is_double double_61_9996"
proof -
  have "fl double_61_9996 = double_61_9996"
    unfolding double_61_9996_def
    by (subst fl_eval [where a = 5]) (simp_all add: emin_def round_even_def)
  then show ?thesis
    by (simp add: is_double_def double_61_9996_def)
qed

lemma millis_0_15: "fl ((double_0_15 - of_int \<lfloor>double_0_15\<rfloor>) * 1000) = 150"
  unfolding double_0_15_def
  by (simp, subst fl_eval [where a = 7]) (simp_all add: emin_def round_even_def)

lemma millis_61_9996: "\<lfloor>fl ((double_61_9996 - of_int \<lfloor>double_61_9996\<rfloor>) * 1000)\<rfloor> = 999"
  unfolding double_61_9996_def
  by (simp, subst fl_eval [where a = 9]) (simp_all add: emin_def round_even_def)

lemma formatTime_61_9996: "formatTime (fl 61.9996) = Some ''01:01.999''"
proof -
  have "(0::real) \<le> double_61_9996" "double_61_9996 < 2 ^ 53"
    by (simp_all add: double_61_9996_def)
  from formatTime_fields [OF is_double_61_9996 this] show ?thesis
    unfolding fl_61_9996 millis_61_9996
    by (simp add: double_61_9996_def pad2 digit_char_def)
qed

text \<open>
  C3, as stated, fails from 100 minutes on: at the double 6000 the result is
  \<^verbatim>\<open>100:00.000\<close>, ten characters with a minutes field of three digits.
\<close>

theorem formatTime_6000_not_MM_SS_mmm:
  "is_double 6000 \<and> (0::real) \<le> 6000 \<and> formatTime 6000 = Some ''100:00.000'' \<and>
   \<not> is_MM_SS_mmm ''100:00.000''"
proof -
  have "fl ((6000 - of_int \<lfloor>6000::real\<rfloor>) * 1000) = 0"
    by (simp add: fl_0)
  with formatTime_fields [OF is_double_6000] have "formatTime 6000 = Some ''100:00.000''"
    by (simp add: padStart_long digits_lt_1000 digit_char_def)
  moreover have "\<not> is_MM_SS_mmm ''100:00.000''"
    by (simp add: is_MM_SS_mmm_def)
  ultimately show ?thesis
    using is_double_6000 by simp
qed

text \<open>
  C3, amended. For every double \<open>t\<close> with \<open>0 \<le> t < 2\<^sup>5\<^sup>3\<close>, \<open>formatTime t\<close> is the
  minutes \<open>\<lfloor>t / 60\<rfloor>\<close> in decimal digits, padded with zeros on the left to at least two
  characters, a colon, the seconds \<open>\<lfloor>t\<rfloor> mod 60\<close> in exactly two digits, a full stop and
  the milliseconds in exactly three digits. Minutes and seconds are truncated. The
  milliseconds are the floor of the product \<open>(t mod 1) * 1000\<close> as the double it is
  rounded to: at least \<open>\<lfloor>(t mod 1) * 1000\<rfloor>\<close>, at most one more (when the product rounds
  up to a whole number), and at most 999. The result has the nine-character form
  \<^verbatim>\<open>MM:SS.mmm\<close> exactly when \<open>t < 6000\<close>; from there on the minutes field takes the three
  or more digits it needs. \<open>formatTime\<close> of the double written \<^verbatim>\<open>61.9996\<close> is
  \<^verbatim>\<open>01:01.999\<close>.
\<close>

theorem formatTime_truncates:
  assumes "is_double t" and "0 \<le> t" and "t < 2 ^ 53"
  shows "formatTime t =
           Some (padStart 2 ''0'' (digits (nat \<lfloor>t / 60\<rfloor>)) @
             [CHR '':'',
              digit_char (nat \<lfloor>t\<rfloor> mod 60 div 10), digit_char (nat \<lfloor>t\<rfloor> mod 60 mod 10),
              CHR ''.'',
              digit_char (nat \<lfloor>fl ((t - of_int \<lfloor>t\<rfloor>) * 1000)\<rfloor> div 100),
              digit_char (nat \<lfloor>fl ((t - of_int \<lfloor>t\<rfloor>) * 1000)\<rfloor> div 10 mod 10),
              digit_char (nat \<lfloor>fl ((t - of_int \<lfloor>t\<rfloor>) * 1000)\<rfloor> mod 10)]) \<and>
         \<lfloor>(t - of_int \<lfloor>t\<rfloor>) * 1000\<rfloor> \<le> \<lfloor>fl ((t - of_int \<lfloor>t\<rfloor>) * 1000)\<rfloor> \<and>
         \<lfloor>fl ((t - of_int \<lfloor>t\<rfloor>) * 1000)\<rfloor> \<le> \<lceil>(t - of_int \<lfloor>t\<rfloor>) * 1000\<rceil> \<and>
         \<lfloor>fl ((t - of_int \<lfloor>t\<rfloor>) * 1000)\<rfloor> \<le> 999 \<and>
         2 \<le> length (padStart 2 ''0'' (digits (nat \<lfloor>t / 60\<rfloor>))) \<and>
         list_all isDigit (padStart 2 ''0'' (digits (nat \<lfloor>t / 60\<rfloor>))) \<and>
         (t < 6000 \<longrightarrow>
            padStart 2 ''0'' (digits (nat \<lfloor>t / 60\<rfloor>)) =
              [digit_char (nat \<lfloor>t / 60\<rfloor> div 10), digit_char (nat \<lfloor>t / 60\<rfloor> mod 10)]) \<and>
         map_option is_MM_SS_mmm (formatTime t) = Some (t < 6000) \<and>
         formatTime (fl 61.9996) = Some ''01:01.999''"
proof -
  have "t < 6000 \<longrightarrow>
      padStart 2 ''0'' (digits (nat \<lfloor>t / 60\<rfloor>)) =
        [digit_char (nat \<lfloor>t / 60\<rfloor> div 10), digit_char (nat \<lfloor>t / 60\<rfloor> mod 10)]"
    using assms(2) by (simp add: minutes_lt_100 pad2)
  moreover have "list_all isDigit (padStart 2 ''0'' (digits (nat \<lfloor>t / 60\<rfloor>)))"
    by (simp add: padStart_digits digits_all_isDigit)
  ultimately show ?thesis
    using formatTime_fields [OF assms] formatTime_form [OF assms]
      fl_millis_floor [OF assms(1,2)] length_padStart_ge [of 2] formatTime_61_9996
    by blast
qed

theorem formatTime_truncates_witness:
  "is_double double_0_15 \<and> formatTime double_0_15 = Some ''00:00.150'' \<and>
   \<lfloor>(double_0_15 - of_int \<lfloor>double_0_15\<rfloor>) * 1000\<rfloor> = 149 \<and>
   is_double double_61_9996 \<and> formatTime double_61_9996 = Some ''01:01.999'' \<and>
   map_option is_MM_SS_mmm (formatTime double_61_9996) = Some True \<and>
   is_double 6000 \<and> map_option is_MM_SS_mmm (formatTime 6000) = Some False"
proof -
  have a: "(0::real) \<le> double_0_15" "double_0_15 < 2 ^ 53"
    by (simp_all add: double_0_15_def)
  have b: "(0::real) \<le> double_61_9996" "double_61_9996 < 2 ^ 53" "double_61_9996 < 6000"
    by (simp_all add: double_61_9996_def)
  have c: "(0::real) \<le> 6000" "(6000::real) < 2 ^ 53"
    by simp_all
  have "formatTime double_0_15 = Some ''00:00.150''"
    using formatTime_truncates [OF is_double_0_15 a] unfolding millis_0_15
    by (simp add: double_0_15_def pad2 digit_char_def)
  moreover have "\<lfloor>(double_0_15 - of_int \<lfloor>double_0_15\<rfloor>) * 1000\<rfloor> = 149"
    by (simp add: double_0_15_def)
  moreover have "formatTime double_61_9996 = Some ''01:01.999''"
    using formatTime_truncates [OF is_double_61_9996 b(1,2)] unfolding millis_61_9996
    by (simp add: double_61_9996_def pad2 digit_char_def)
  moreover have "map_option is_MM_SS_mmm (formatTime double_61_9996) = Some True"
  proof -
    have "map_option is_MM_SS_mmm (formatTime double_61_9996) = Some (double_61_9996 < 6000)"
      using formatTime_truncates [OF is_double_61_9996 b(1,2)] by blast
    then show ?thesis
      using b(3) by simp
  qed
  moreover have "map_option is_MM_SS_mmm (formatTime 6000) = Some False"
  proof -
    have "map_option is_MM_SS_mmm (formatTime 6000) = Some ((6000::real) < 6000)"
      using formatTime_truncates [OF is_double_6000 c] by blast
    then show ?thesis
      by simp
  qed
  ultimately show ?thesis
    using is_double_0_15 is_double_61_9996 is_double_6000 by blast
qed

subsection \<open>Saving a result\<close>

text \<open>
  C4. \<open>saveResult\<close> leaves the whole state as it is when there is no current user or
  the flight time is not positive. Otherwise it puts exactly one new record, with the
  current height and flight time and the id of the current user, in front of the history,
  and writes the new history to the local storage; marks, users and current user stay.
\<close>

theorem saveResult_guarded:
  "(currentUser st = None \<or> flightTime st \<le> 0 \<longrightarrow> saveResult st i now = st) \<and>
   (currentUser st = Some u \<and> 0 < flightTime st \<longrightarrow>
      jumpHistory (saveResult st i now) =
        \<lparr> jr_id = i, jr_userId = up_id u, jr_date = now, jr_heightCm = jumpHeight st,
          jr_flightTime = flightTime st, jr_note = None \<rparr> # jumpHistory st \<and>
      length (jumpHistory (saveResult st i now)) = length (jumpHistory st) + 1 \<and>
      localStorage (saveResult st i now) ''jumplab_history'' =
        Some (StoredHistory (jumpHistory (saveResult st i now))) \<and>
      localStorage (saveResult st i now) ''jumplab_users'' = localStorage st ''jumplab_users'' \<and>
      takeOffTime (saveResult st i now) = takeOffTime st \<and>
      landingTime (saveResult st i now) = landingTime st \<and>
      users (saveResult st i now) = users st \<and>
      currentUser (saveResult st i now) = currentUser st)"
  by (auto simp add: saveResult_def Let_def split: option.splits)

theorem saveResult_guarded_witness:
  "saveResult (loadedState\<lparr> takeOffTime := Some 1, landingTime := Some 1 \<rparr>) ''r4b8z1c0k'' 2000 =
     loadedState\<lparr> takeOffTime := Some 1, landingTime := Some 1 \<rparr> \<and>
   saveResult (loadedState\<lparr> takeOffTime := Some 1, landingTime := Some 1.5, currentUser := None \<rparr>)
       ''r4b8z1c0k'' 2000 =
     loadedState\<lparr> takeOffTime := Some 1, landingTime := Some 1.5, currentUser := None \<rparr> \<and>
   jumpHistory (saveResult (loadedState\<lparr> takeOffTime := Some 1, landingTime := Some 1.5 \<rparr>)
       ''r4b8z1c0k'' 2000) =
     [\<lparr> jr_id = ''r4b8z1c0k'', jr_userId = ''g7k2m9q1x'', jr_date = 2000,
        jr_heightCm = 30.64578125, jr_flightTime = 0.5, jr_note = None \<rparr>]"
proof -
  let ?s0 = "loadedState\<lparr> takeOffTime := Some 1, landingTime := Some 1 \<rparr>"
  let ?s1 = "loadedState\<lparr> takeOffTime := Some 1, landingTime := Some 1.5, currentUser := None \<rparr>"
  let ?s2 = "loadedState\<lparr> takeOffTime := Some 1, landingTime := Some 1.5 \<rparr>"
  have "flightTime ?s0 \<le> 0"
    by (simp add: flightTime_def)
  with saveResult_guarded [of ?s0 "''r4b8z1c0k''" 2000] have a: "saveResult ?s0 ''r4b8z1c0k'' 2000 = ?s0"
    by blast
  have "currentUser ?s1 = None"
    by simp
  with saveResult_guarded [of ?s1 "''r4b8z1c0k''" 2000] have b: "saveResult ?s1 ''r4b8z1c0k'' 2000 = ?s1"
    by blast
  have f: "flightTime ?s2 = 0.5"
    by (simp add: flightTime_def)
  have h: "jumpHeight ?s2 = 30.64578125"
    unfolding jumpHeight_def f by (simp add: calculateJumpHeight_def G_def power2_eq_square)
  have "currentUser ?s2 = Some guest \<and> 0 < flightTime ?s2"
    unfolding f by (simp add: loadedState_def)
  with saveResult_guarded [of ?s2 "''r4b8z1c0k''" 2000 guest]
  have "jumpHistory (saveResult ?s2 ''r4b8z1c0k'' 2000) =
      \<lparr> jr_id = ''r4b8z1c0k'', jr_userId = up_id guest, jr_date = 2000, jr_heightCm = jumpHeight ?s2,
        jr_flightTime = flightTime ?s2, jr_note = None \<rparr> # jumpHistory ?s2"
    by blast
  then have c: "jumpHistory (saveResult ?s2 ''r4b8z1c0k'' 2000) =
      [\<lparr> jr_id = ''r4b8z1c0k'', jr_userId = ''g7k2m9q1x'', jr_date = 2000,
         jr_heightCm = 30.64578125, jr_flightTime = 0.5, jr_note = None \<rparr>]"
    unfolding f h by (simp add: guest_def loadedState_def initialState_def)
  from a b c show ?thesis
    by blast
qed

subsection \<open>Seeking and stepping\<close>

lemma clampTo_min_max: "lo \<le> hi \<Longrightarrow> min (max lo x) hi = clampTo lo hi x"
  by (simp add: clampTo_def min_def max_def)

lemma clampTo_id_iff: "lo \<le> hi \<Longrightarrow> clampTo lo hi x = x \<longleftrightarrow> lo \<le> x \<and> x \<le> hi"
  by (auto simp add: clampTo_def)

text \<open>
  C5, as stated, fails: \<open>seekTo\<close> does not clamp. With a video of 10 seconds, seeking
  to 25 leaves the current time of the state at 25, where the clamped value is 10.
\<close>

theorem seekTo_does_not_clamp:
  "videoRef loadedState =
     Some \<lparr> el_currentTime = 0, el_duration = 10, el_paused = True, el_playbackRate = 1 \<rparr> \<and>
   currentTime (seekTo loadedState 25) = 25 \<and>
   clampTo 0 10 25 = 10 \<and>
   currentTime (seekTo loadedState 25) \<noteq> clampTo 0 10 25"
  by (simp add: seekTo_def loadedState_def initialState_def clampTo_def)

text \<open>
  C5, amended. With a video element loaded, \<open>seekTo st t\<close> pauses playback and sets the
  current time, of the state and of the element, to \<open>t\<close> as it is given; nothing else
  changes. It applies no clamp of its own: for a duration \<open>d \<ge> 0\<close> the new current time
  is the value of \<open>t\<close> clamped to the interval from 0 to \<open>d\<close> exactly when \<open>t\<close> already
  lies in that interval.
\<close>

theorem seekTo_sets_time:
  assumes "videoRef st = Some v"
  shows "currentTime (seekTo st t) = t \<and>
         \<not> isPlaying (seekTo st t) \<and>
         videoRef (seekTo st t) = Some (v\<lparr> el_currentTime := t, el_paused := True \<rparr>) \<and>
         (seekTo st t)\<lparr> videoRef := videoRef st, currentTime := currentTime st,
                        isPlaying := isPlaying st \<rparr> = st \<and>
         (0 \<le> el_duration v \<longrightarrow>
            (currentTime (seekTo st t) = clampTo 0 (el_duration v) t \<longleftrightarrow>
             0 \<le> t \<and> t \<le> el_duration v))"
  using assms clampTo_id_iff [of 0 "el_duration v" t]
  by (auto simp add: seekTo_def)

theorem seekTo_sets_time_witness:
  "currentTime (seekTo loadedState 1.5) = 1.5 \<and>
   \<not> isPlaying (seekTo loadedState 1.5) \<and>
   currentTime (seekTo loadedState 1.5) = clampTo 0 10 1.5 \<and>
   currentTime (seekTo loadedState 25) \<noteq> clampTo 0 10 25"
proof -
  let ?v = "\<lparr> el_currentTime = 0, el_duration = 10, el_paused = True, el_playbackRate = 1 \<rparr>"
  have v: "videoRef loadedState = Some ?v"
    by (simp add: loadedState_def)
  have d: "el_duration ?v = 10"
    by simp
  from seekTo_sets_time [OF v, of "1.5"] seekTo_sets_time [OF v, of 25] show ?thesis
    unfolding d by simp
qed

text \<open>
  C6. With a video element loaded, a frame rate \<open>fps > 0\<close> and a duration \<open>d \<ge> 0\<close>,
  \<open>stepFrames\<close> of an integer \<open>n\<close> pauses playback and sets the current time, of the state
  and of the element, to the time of the element plus \<open>n * (1 / fps)\<close>, clamped to the
  interval from 0 to \<open>d\<close>; nothing else changes.
\<close>

theorem stepFrames_moves_and_clamps:
  assumes "videoRef st = Some v" and "0 < fps st" and "0 \<le> el_duration v"
  shows "currentTime (stepFrames st (of_int n)) =
           clampTo 0 (el_duration v) (el_currentTime v + of_int n * (1 / fps st)) \<and>
         0 \<le> currentTime (stepFrames st (of_int n)) \<and>
         currentTime (stepFrames st (of_int n)) \<le> el_duration v \<and>
         \<not> isPlaying (stepFrames st (of_int n)) \<and>
         videoRef (stepFrames st (of_int n)) =
           Some (v\<lparr> el_paused := True,
                    el_currentTime := currentTime (stepFrames st (of_int n)) \<rparr>) \<and>
         (stepFrames st (of_int n))\<lparr> videoRef := videoRef st, currentTime := currentTime st,
                                      isPlaying := isPlaying st \<rparr> = st"
proof -
  let ?x = "el_currentTime v + of_int n * (1 / fps st)"
  have c: "min (max 0 ?x) (el_duration v) = clampTo 0 (el_duration v) ?x"
    using assms(3) by (rule clampTo_min_max)
  have "0 \<le> clampTo 0 (el_duration v) ?x" "clampTo 0 (el_duration v) ?x \<le> el_duration v"
    using assms(3) by (simp_all add: clampTo_def)
  then show ?thesis
    using assms(1) c by (simp add: stepFrames_def Let_def)
qed

theorem stepFrames_moves_and_clamps_witness:
  "currentTime (stepFrames (seekTo loadedState 1) (of_int 1)) = 61 / 60 \<and>
   currentTime (stepFrames (seekTo loadedState 1) (of_int (- 10))) = 5 / 6 \<and>
   currentTime (stepFrames loadedState (of_int (- 1))) = 0 \<and>
   currentTime (stepFrames (seekTo loadedState 10) (of_int 10)) = 10 \<and>
   \<not> isPlaying (stepFrames (togglePlay loadedState) (of_int 1))"
proof -
  let ?v = "\<lparr> el_currentTime = 0, el_duration = 10, el_paused = True, el_playbackRate = 1 \<rparr>"
  have f: "fps loadedState = 60" "fps (seekTo loadedState t) = 60" "fps (togglePlay loadedState) = 60" for t
    by (simp_all add: loadedState_def initialState_def seekTo_def togglePlay_def)
  have v0: "videoRef loadedState = Some ?v"
    by (simp add: loadedState_def)
  have v1: "videoRef (seekTo loadedState t) = Some (?v\<lparr> el_currentTime := t \<rparr>)" for t
    by (simp add: loadedState_def seekTo_def)
  have v2: "videoRef (togglePlay loadedState) = Some (?v\<lparr> el_paused := False \<rparr>)"
    by (simp add: loadedState_def initialState_def togglePlay_def)
  from stepFrames_moves_and_clamps [OF v1 [of 1], of 1]
    stepFrames_moves_and_clamps [OF v1 [of 1], of "- 10"]
    stepFrames_moves_and_clamps [OF v0, of "- 1"]
    stepFrames_moves_and_clamps [OF v1 [of 10], of 10]
    stepFrames_moves_and_clamps [OF v2, of 1]
  show ?thesis
    by (simp add: f clampTo_def)
qed

lemma fps_handle: "1 \<le> fps st \<Longrightarrow> 1 \<le> fps (handle st e)"
  by (cases e)
    (auto simp add: togglePlay_def handleTimeUpdate_def handleLoadedMetadata_def stepFrames_def
      seekTo_def handleFpsInput_def selectFpsPreset_def fpsPresets_def markTakeOff_def
      markLanding_def addLine_def deleteLine_def removeLine_def setNewUserName_def
      handleCreateUser_def handleSwitchUser_def saveResult_def deleteHistoryItem_def Let_def
      split: option.splits)

lemma fps_run: "1 \<le> fps st \<Longrightarrow> 1 \<le> fps (run st evs)"
  by (induction evs arbitrary: st) (simp_all add: fps_handle)

lemma fps_configured: "0 < fps (run initialState evs)"
proof -
  have "1 \<le> fps (run initialState evs)"
    by (rule fps_run) (simp add: initialState_def)
  then show ?thesis
    by simp
qed

text \<open>
  C9. While no video element is loaded, \<open>togglePlay\<close>, \<open>stepFrames\<close> for any number of
  frames and \<open>seekTo\<close> for any time return the state they were given: current time, play
  state, marks and everything else are unchanged.
\<close>

theorem playback_noop_without_video:
  assumes "videoRef st = None"
  shows "togglePlay st = st \<and> stepFrames st n = st \<and> seekTo st t = st"
  using assms by (simp add: togglePlay_def stepFrames_def seekTo_def)

theorem playback_noop_without_video_witness:
  "videoRef initialState = None \<and>
   togglePlay initialState = initialState \<and>
   stepFrames initialState (- 10) = initialState \<and>
   seekTo initialState 3.25 = initialState"
proof -
  have h: "videoRef initialState = None"
    by (simp add: initialState_def)
  from h playback_noop_without_video [OF h, of "- 10" "3.25"] show ?thesis
    by simp
qed

subsection \<open>Reference lines\<close>

lemma filter_other_ids:
  "i \<notin> set (map f xs) \<Longrightarrow> filter (\<lambda>x. f x \<noteq> i) xs = xs"
  by (induction xs) auto

lemma length_filter_distinct_ids:
  "distinct (map f xs) \<Longrightarrow> length xs \<le> Suc (length (filter (\<lambda>x. f x \<noteq> i) xs))"
proof (induction xs)
  case Nil
  then show ?case by simp
next
  case (Cons x xs)
  show ?case
  proof (cases "f x = i")
    case True
    with Cons.prems have "i \<notin> set (map f xs)"
      by auto
    then have "filter (\<lambda>x. f x \<noteq> i) xs = xs"
      by (rule filter_other_ids)
    with True show ?thesis
      by simp
  next
    case False
    with Cons show ?thesis
      by simp
  qed
qed

lemma deleteLine_single: "length (lines st) = 1 \<Longrightarrow> deleteLine st i = st"
  by (simp add: deleteLine_def)

lemma deleteLine_keeps_one:
  assumes "lines st \<noteq> []" and "distinct (map rl_id (lines st))"
  shows "lines (deleteLine st i) \<noteq> [] \<and> distinct (map rl_id (lines (deleteLine st i)))"
proof (cases "1 < length (lines st)")
  case True
  have "length (lines st) \<le> Suc (length (filter (\<lambda>l. rl_id l \<noteq> i) (lines st)))"
    using assms(2) by (rule length_filter_distinct_ids)
  with True have "filter (\<lambda>l. rl_id l \<noteq> i) (lines st) \<noteq> []"
    by auto
  moreover have "distinct (map rl_id (filter (\<lambda>l. rl_id l \<noteq> i) (lines st)))"
    using assms(2) by (rule distinct_map_filter)
  ultimately show ?thesis
    using True by (simp add: deleteLine_def removeLine_def)
next
  case False
  with assms show ?thesis
    by (simp add: deleteLine_def)
qed

lemma addLine_keeps_one:
  assumes "distinct (map rl_id (lines st))" and "i \<notin> set (map rl_id (lines st))"
  shows "lines (addLine st i) \<noteq> [] \<and> distinct (map rl_id (lines (addLine st i)))"
  using assms by (simp add: addLine_def Let_def)

lemma lines_handle_other:
  assumes "\<And>i. e \<noteq> AddLine i" and "\<And>i. e \<noteq> DeleteLine i"
  shows "lines (handle st e) = lines st"
  using assms
  by (cases e)
    (auto simp add: togglePlay_def handleTimeUpdate_def handleLoadedMetadata_def stepFrames_def
      seekTo_def handleFpsInput_def selectFpsPreset_def markTakeOff_def markLanding_def
      setNewUserName_def handleCreateUser_def handleSwitchUser_def saveResult_def
      deleteHistoryItem_def Let_def split: option.splits)

lemma lines_handle:
  assumes "lines st \<noteq> []" and "distinct (map rl_id (lines st))"
    and "case e of AddLine i \<Rightarrow> i \<notin> set (map rl_id (lines st)) | _ \<Rightarrow> True"
  shows "lines (handle st e) \<noteq> [] \<and> distinct (map rl_id (lines (handle st e)))"
proof (cases "(\<exists>i. e = AddLine i) \<or> (\<exists>i. e = DeleteLine i)")
  case True
  then show ?thesis
  proof
    assume "\<exists>i. e = AddLine i"
    then obtain i where "e = AddLine i" ..
    with assms show ?thesis
      using addLine_keeps_one [of st i] by simp
  next
    assume "\<exists>i. e = DeleteLine i"
    then obtain i where "e = DeleteLine i" ..
    with assms show ?thesis
      using deleteLine_keeps_one [of st i] by simp
  qed
next
  case False
  then have "lines (handle st e) = lines st"
    by (intro lines_handle_other) auto
  with assms show ?thesis
    by simp
qed

lemma lines_run:
  "lines st \<noteq> [] \<Longrightarrow> distinct (map rl_id (lines st)) \<Longrightarrow> freshLineIds st evs \<Longrightarrow>
   lines (run st evs) \<noteq> [] \<and> distinct (map rl_id (lines (run st evs)))"
proof (induction evs arbitrary: st)
  case Nil
  then show ?case by simp
next
  case (Cons e es)
  from Cons.prems have "lines (handle st e) \<noteq> [] \<and> distinct (map rl_id (lines (handle st e)))"
    by (intro lines_handle) simp_all
  moreover from Cons.prems have "freshLineIds (handle st e) es"
    by simp
  ultimately show ?case
    using Cons.IH [of "handle st e"] by simp
qed

text \<open>
  C7, as stated, fails when \<open>generateId\<close> returns an id a second time: \<open>removeLine\<close>
  filters by id, so one delete takes both lines of that id. Two lines are added with the
  same id, the default line is deleted, and the delete of the shared id (offered, since
  two lines remain) leaves no line.
\<close>

theorem lines_empty_on_repeated_id:
  "length (lines (run initialState
     [AddLine ''k3x9q0z7a'', AddLine ''k3x9q0z7a'', DeleteLine ''default'',
      DeleteLine ''k3x9q0z7a''])) = 0"
  by (simp add: initialState_def addLine_def deleteLine_def removeLine_def Let_def)

text \<open>
  C7, amended. Deleting when exactly one reference line remains changes nothing. From a
  state with at least one line and pairwise different line ids (the initial state is
  one), no sequence of events in which every added line gets an id different from the ids
  of the lines present at that moment makes the number of lines drop below 1.
\<close>

theorem lines_never_empty:
  "(length (lines st) = 1 \<longrightarrow> deleteLine st i = st) \<and>
   (lines st \<noteq> [] \<and> distinct (map rl_id (lines st)) \<and> freshLineIds st evs \<longrightarrow>
      1 \<le> length (lines (run st evs)))"
proof -
  have "1 \<le> length (lines (run st evs))"
    if "lines st \<noteq> []" "distinct (map rl_id (lines st))" "freshLineIds st evs"
  proof -
    from that have "lines (run st evs) \<noteq> []"
      using lines_run [of st evs] by simp
    then show ?thesis
      by (simp add: Suc_le_eq)
  qed
  then show ?thesis
    by (auto simp add: deleteLine_single)
qed

theorem lines_never_empty_witness:
  "deleteLine initialState ''default'' = initialState \<and>
   1 \<le> length (lines (run initialState
     [AddLine ''k3x9q0z7a'', AddLine ''m1w8e5r2t'', DeleteLine ''default'',
      DeleteLine ''k3x9q0z7a'', DeleteLine ''m1w8e5r2t'']))"
proof -
  let ?evs = "[AddLine ''k3x9q0z7a'', AddLine ''m1w8e5r2t'', DeleteLine ''default'',
      DeleteLine ''k3x9q0z7a'', DeleteLine ''m1w8e5r2t'']"
  have "length (lines initialState) = 1"
    by (simp add: initialState_def)
  moreover have "lines initialState \<noteq> [] \<and> distinct (map rl_id (lines initialState))"
    by (simp add: initialState_def)
  moreover have "freshLineIds initialState ?evs"
    by (simp add: initialState_def addLine_def deleteLine_def removeLine_def Let_def)
  ultimately show ?thesis
    using lines_never_empty [of initialState "''default''" ?evs] by blast
qed

subsection \<open>Creating a user\<close>

lemma dropWhile_self_empty:
  assumes "\<forall>x\<in>set (dropWhile P xs). P x"
  shows "dropWhile P xs = []"
proof (rule ccontr)
  assume n: "dropWhile P xs \<noteq> []"
  then have "\<not> P (hd (dropWhile P xs))"
    by (rule hd_dropWhile)
  moreover from n have "hd (dropWhile P xs) \<in> set (dropWhile P xs)"
    by (rule hd_in_set)
  ultimately show False
    using assms by blast
qed

lemma trim_empty_iff: "trim s = [] \<longleftrightarrow> list_all isWhiteSpace s"
proof -
  have "trim s = [] \<longleftrightarrow> (\<forall>x\<in>set (dropWhile isWhiteSpace s). isWhiteSpace x)"
    by (simp add: trim_def dropWhile_eq_Nil_conv)
  also have "\<dots> \<longleftrightarrow> (\<forall>x\<in>set s. isWhiteSpace x)"
  proof
    assume "\<forall>x\<in>set (dropWhile isWhiteSpace s). isWhiteSpace x"
    then have "dropWhile isWhiteSpace s = []"
      by (rule dropWhile_self_empty)
    then show "\<forall>x\<in>set s. isWhiteSpace x"
      by (simp only: dropWhile_eq_Nil_conv)
  next
    assume "\<forall>x\<in>set s. isWhiteSpace x"
    then show "\<forall>x\<in>set (dropWhile isWhiteSpace s). isWhiteSpace x"
      by (blast dest: set_dropWhileD)
  qed
  finally show ?thesis
    by (simp add: list_all_iff)
qed

text \<open>
  C8. When the name typed consists of white space only (it trims to the empty string),
  \<open>handleCreateUser\<close> returns the state it was given: user list, current user and local
  storage are unchanged. For any other name it appends exactly one profile, carrying the
  name as typed, to the user list, writes the new list to the local storage and makes
  the new profile the current user; the history is unchanged.
\<close>

theorem handleCreateUser_appends:
  "(trim (newUserName st) = [] \<longleftrightarrow> list_all isWhiteSpace (newUserName st)) \<and>
   (trim (newUserName st) = [] \<longrightarrow> handleCreateUser st i now = st) \<and>
   (trim (newUserName st) \<noteq> [] \<longrightarrow>
      users (handleCreateUser st i now) =
        users st @ [\<lparr> up_id = i, up_name = newUserName st, up_createdAt = now \<rparr>] \<and>
      length (users (handleCreateUser st i now)) = length (users st) + 1 \<and>
      localStorage (handleCreateUser st i now) ''jumplab_users'' =
        Some (StoredUsers (users (handleCreateUser st i now))) \<and>
      localStorage (handleCreateUser st i now) ''jumplab_history'' =
        localStorage st ''jumplab_history'' \<and>
      currentUser (handleCreateUser st i now) =
        Some \<lparr> up_id = i, up_name = newUserName st, up_createdAt = now \<rparr> \<and>
      jumpHistory (handleCreateUser st i now) = jumpHistory st)"
  using trim_empty_iff [of "newUserName st"]
  by (simp add: handleCreateUser_def Let_def)

theorem handleCreateUser_appends_witness:
  "handleCreateUser (loadedState\<lparr> newUserName := ''   '' \<rparr>) ''u5t2p8n4d'' 3000 =
     loadedState\<lparr> newUserName := ''   '' \<rparr> \<and>
   users (handleCreateUser (loadedState\<lparr> newUserName := '' Aki '' \<rparr>) ''u5t2p8n4d'' 3000) =
     [guest, \<lparr> up_id = ''u5t2p8n4d'', up_name = '' Aki '', up_createdAt = 3000 \<rparr>] \<and>
   currentUser (handleCreateUser (loadedState\<lparr> newUserName := '' Aki '' \<rparr>) ''u5t2p8n4d'' 3000) =
     Some \<lparr> up_id = ''u5t2p8n4d'', up_name = '' Aki '', up_createdAt = 3000 \<rparr>"
proof -
  let ?s0 = "loadedState\<lparr> newUserName := ''   '' \<rparr>"
  let ?s1 = "loadedState\<lparr> newUserName := '' Aki '' \<rparr>"
  have "trim (newUserName ?s0) = []"
    by (simp add: trim_def isWhiteSpace_def)
  with handleCreateUser_appends [of ?s0 "''u5t2p8n4d''" 3000]
  have a: "handleCreateUser ?s0 ''u5t2p8n4d'' 3000 = ?s0"
    by blast
  have "trim (newUserName ?s1) \<noteq> []"
    by (simp add: trim_def isWhiteSpace_def)
  with handleCreateUser_appends [of ?s1 "''u5t2p8n4d''" 3000]
  have "users (handleCreateUser ?s1 ''u5t2p8n4d'' 3000) =
          users ?s1 @ [\<lparr> up_id = ''u5t2p8n4d'', up_name = newUserName ?s1, up_createdAt = 3000 \<rparr>]"
    and "currentUser (handleCreateUser ?s1 ''u5t2p8n4d'' 3000) =
          Some \<lparr> up_id = ''u5t2p8n4d'', up_name = newUserName ?s1, up_createdAt = 3000 \<rparr>"
    by blast+
  then have "users (handleCreateUser ?s1 ''u5t2p8n4d'' 3000) =
          [guest, \<lparr> up_id = ''u5t2p8n4d'', up_name = '' Aki '', up_createdAt = 3000 \<rparr>]"
    and "currentUser (handleCreateUser ?s1 ''u5t2p8n4d'' 3000) =
          Some \<lparr> up_id = ''u5t2p8n4d'', up_name = '' Aki '', up_createdAt = 3000 \<rparr>"
    by (simp_all add: loadedState_def)
  with a show ?thesis
    by blast
qed

subsection \<open>The records of the history\<close>

lemma fl_pow2:
  assumes "emin \<le> a - 52"
  shows "fl (2 powi a) = 2 powi a"
proof -
  have pos: "(0::real) < 2 powi a"
    by simp
  have "(2::real) powi a < 2 powi (a + 1)"
    by (rule power_int_strict_increasing) simp_all
  then have e: "ulp_exp (2 powi a) = a - 52"
    using ulp_exp_eq [OF pos, of a] assms by simp
  have "(2::real) powi a = of_int (2 ^ 52) * 2 powi (a - 52)"
    using pow2_split [of 52 "a - 52"] by simp
  then have "round_at (a - 52) (2 powi a) = 2 powi a"
    using round_at_fixes [of "a - 52" "2 ^ 52"] by simp
  then show ?thesis
    using pos by (simp add: fl_def e)
qed

lemma fl_pos_ge:
  assumes "0 \<le> x" and "0 < fl x"
  shows "2 powi emin \<le> fl x"
proof -
  define e where "e = ulp_exp x"
  define n where "n = round_even (x / 2 powi e)"
  have u: "(0::real) < 2 powi e"
    by simp
  from assms(2) have nz: "x \<noteq> 0"
    by (auto simp add: fl_0)
  then have f: "fl x = of_int n * 2 powi e"
    by (simp add: fl_def round_at_def n_def e_def)
  with assms(2) have "0 < real_of_int n"
    using pos_mult_iff [OF u, of "of_int n"] by simp
  then have "1 \<le> real_of_int n"
    by simp
  then have "1 * 2 powi e \<le> real_of_int n * 2 powi e"
    by (rule mult_right_mono) simp
  then have "2 powi e \<le> real_of_int n * 2 powi e"
    by simp
  moreover have "(2::real) powi emin \<le> 2 powi e"
    unfolding e_def using ulp_exp_ge by (rule pow2_le)
  ultimately show ?thesis
    unfolding f by (rule order_trans [rotated])
qed

lemma G64_ge: "9 \<le> G64"
  using fl_between_ints [of "9.80665"] by (simp add: G64_def)

lemma calculateJumpHeight64_nonneg: "0 \<le> calculateJumpHeight64 t"
proof -
  have "0 \<le> fl (t * t)"
    by (rule fl_nonneg) simp
  then have "0 \<le> G64 * fl (t * t)"
    using G64_ge by simp
  then have "0 \<le> fl (G64 * fl (t * t)) / 8"
    by (simp add: fl_nonneg)
  then have "0 \<le> fl (fl (G64 * fl (t * t)) / 8) * 100"
    by (simp add: fl_nonneg)
  then show ?thesis
    by (simp add: calculateJumpHeight64_def fl_nonneg)
qed

lemma calculateJumpHeight64_pos_iff:
  "0 < calculateJumpHeight64 t \<longleftrightarrow> 2 powi (emin - 1) < t * t"
proof -
  define x1 where "x1 = fl (t * t)"
  define x2 where "x2 = fl (G64 * x1)"
  define x3 where "x3 = fl (x2 / 8)"
  define u :: real where "u = 2 powi emin"
  have h: "calculateJumpHeight64 t = fl (x3 * 100)"
    by (simp add: calculateJumpHeight64_def x1_def x2_def x3_def)
  have x1_iff: "0 < x1 \<longleftrightarrow> 2 powi (emin - 1) < t * t"
    unfolding x1_def by (rule fl_pos_iff) simp
  have half: "2 powi (emin - 1) = u / 2"
    using pow2_split [of emin "- 1"] by (simp add: u_def)
  have u: "0 < u"
    by (simp add: u_def)
  have x1_0: "0 \<le> x1"
    unfolding x1_def by (rule fl_nonneg) simp
  show ?thesis
  proof (cases "0 < x1")
    case True
    have a1: "u \<le> x1"
      unfolding x1_def u_def using True by (intro fl_pos_ge) (simp_all add: x1_def)
    have "9 * x1 \<le> G64 * x1"
      using G64_ge x1_0 by (rule mult_right_mono)
    with a1 u have g: "9 * u \<le> G64 * x1"
      by linarith
    with u have "u \<le> G64 * x1"
      by linarith
    then have "G64 * x1 / 2 \<le> x2"
      unfolding x2_def u_def by (rule fl_half)
    with g have a2: "9 * u / 2 \<le> x2"
      by linarith
    with u have "u / 2 < x2 / 8" "0 \<le> x2 / 8"
      by linarith+
    then have "0 < x3"
      unfolding x3_def using fl_pos_iff [of "x2 / 8"] half by simp
    moreover have "0 \<le> x2 / 8"
      using a2 u by linarith
    ultimately have "u \<le> x3"
      unfolding x3_def u_def by (intro fl_pos_ge)
    with u have "u \<le> x3 * 100"
      by linarith
    then have "x3 * 100 / 2 \<le> fl (x3 * 100)"
      unfolding u_def by (rule fl_half)
    with \<open>u \<le> x3\<close> u have "0 < fl (x3 * 100)"
      by linarith
    with True show ?thesis
      by (simp add: h x1_iff)
  next
    case False
    with x1_0 have "x1 = 0"
      by simp
    then have "fl (x3 * 100) = 0"
      by (simp add: x3_def x2_def fl_0)
    with False show ?thesis
      by (simp add: h x1_iff)
  qed
qed

lemma saveResult64_valid:
  assumes "saveResult64 st i now \<noteq> st"
  shows "jumpHistory (saveResult64 st i now) =
           hd (jumpHistory (saveResult64 st i now)) # jumpHistory st \<and>
         validRecord64 (hd (jumpHistory (saveResult64 st i now)))"
proof (cases "currentUser st")
  case None
  with assms show ?thesis
    by (simp add: saveResult64_def)
next
  case (Some u)
  with assms have pos: "0 < flightTime64 st"
    by (auto simp add: saveResult64_def split: if_splits)
  then have "validRecord64
      \<lparr> jr_id = i, jr_userId = up_id u, jr_date = now, jr_heightCm = jumpHeight64 st,
        jr_flightTime = flightTime64 st, jr_note = None \<rparr>"
    by (simp add: validRecord64_def jumpHeight64_def calculateJumpHeight64_nonneg
        calculateJumpHeight64_pos_iff)
  with Some pos show ?thesis
    by (simp add: saveResult64_def Let_def)
qed

lemma saveResult64_keeps_valid:
  assumes "list_all validRecord64 (jumpHistory st)"
  shows "list_all validRecord64 (jumpHistory (saveResult64 st i now))"
proof (cases "saveResult64 st i now = st")
  case True
  with assms show ?thesis
    by simp
next
  case False
  then have "jumpHistory (saveResult64 st i now) =
           hd (jumpHistory (saveResult64 st i now)) # jumpHistory st \<and>
         validRecord64 (hd (jumpHistory (saveResult64 st i now)))"
    by (rule saveResult64_valid)
  then have eq: "jumpHistory (saveResult64 st i now) =
           hd (jumpHistory (saveResult64 st i now)) # jumpHistory st"
    and v: "validRecord64 (hd (jumpHistory (saveResult64 st i now)))"
    by simp_all
  show ?thesis
    by (subst eq) (simp add: v assms)
qed

lemma deleteHistoryItem_keeps_valid:
  "list_all validRecord64 (jumpHistory st) \<Longrightarrow>
   list_all validRecord64 (jumpHistory (deleteHistoryItem st j))"
  by (simp add: deleteHistoryItem_def Let_def list_all_iff)

lemma is_double_tinyTime: "is_double tinyTime"
proof -
  have "fl tinyTime = tinyTime"
    unfolding tinyTime_def by (rule fl_pow2) (simp add: emin_def)
  moreover have "(2::real) powi (- 600) \<le> 2 powi 0"
    by (rule pow2_le) simp
  then have "\<bar>tinyTime\<bar> < 2 ^ 1024"
    by (simp add: tinyTime_def)
  ultimately show ?thesis
    by (simp add: is_double_def)
qed

lemma tinyTime_pos: "0 < tinyTime"
  by (simp add: tinyTime_def)

lemma tinyTime_height: "calculateJumpHeight64 tinyTime = 0"
proof -
  have "tinyTime * tinyTime = 2 powi (- 1200)"
    using pow2_split [of "- 600" "- 600"] by (simp add: tinyTime_def)
  moreover have "(2::real) powi (- 1200) \<le> 2 powi (emin - 1)"
    by (rule pow2_le) (simp add: emin_def)
  ultimately have "\<not> 2 powi (emin - 1) < tinyTime * tinyTime"
    by simp
  then have "\<not> 0 < calculateJumpHeight64 tinyTime"
    by (simp add: calculateJumpHeight64_pos_iff)
  then show ?thesis
    using calculateJumpHeight64_nonneg [of tinyTime] by simp
qed

lemma tinyTime_flight:
  "flightTime64 (loadedState\<lparr> takeOffTime := Some 0, landingTime := Some tinyTime \<rparr>) = tinyTime"
  using is_double_tinyTime tinyTime_pos by (simp add: flightTime64_def is_double_def)

lemma loadedState_user:
  "currentUser (loadedState\<lparr> takeOffTime := a, landingTime := b \<rparr>) = Some guest"
  "jumpHistory (loadedState\<lparr> takeOffTime := a, landingTime := b \<rparr>) = []"
  by (simp_all add: loadedState_def initialState_def)

lemma half_flight:
  "flightTime64 (loadedState\<lparr> takeOffTime := Some 1, landingTime := Some (3 / 2) \<rparr>) = 1 / 2"
proof -
  have "fl (2 powi (- 1)) = 2 powi (- 1)"
    by (rule fl_pow2) (simp add: emin_def)
  then have "fl (1 / 2) = 1 / 2"
    by simp
  then show ?thesis
    by (simp add: flightTime64_def)
qed

text \<open>
  C10, as stated, fails where the square of the flight time rounds to 0: with the
  take-off mark at 0 and the landing mark at \<open>2\<^sup>-\<^sup>6\<^sup>0\<^sup>0\<close> the flight time is positive, the
  save goes through, and the record it stores has the height 0.
\<close>

theorem saved_height_zero:
  "is_double tinyTime \<and> 0 < tinyTime \<and>
   length (jumpHistory (saveResult64
     (loadedState\<lparr> takeOffTime := Some 0, landingTime := Some tinyTime \<rparr>) ''r4b8z1c0k'' 2000)) = 1 \<and>
   jr_flightTime (hd (jumpHistory (saveResult64
     (loadedState\<lparr> takeOffTime := Some 0, landingTime := Some tinyTime \<rparr>) ''r4b8z1c0k'' 2000))) =
     tinyTime \<and>
   jr_heightCm (hd (jumpHistory (saveResult64
     (loadedState\<lparr> takeOffTime := Some 0, landingTime := Some tinyTime \<rparr>) ''r4b8z1c0k'' 2000))) = 0"
  using is_double_tinyTime tinyTime_pos
  by (simp add: saveResult64_def jumpHeight64_def tinyTime_flight tinyTime_height Let_def
      loadedState_user)

text \<open>
  C10, amended. A save that changes the state puts exactly one record in front of the
  history, and that record has a positive flight time and the height that
  \<open>calculateJumpHeight64\<close> gives for this flight time. The height is not negative; it
  is positive exactly when the square of the flight time is above \<open>2\<^sup>-\<^sup>1\<^sup>0\<^sup>7\<^sup>5\<close> (a
  flight time above about \<open>1.6 * 10\<^sup>-\<^sup>1\<^sup>6\<^sup>2\<close> seconds) and 0 below, where the square
  rounds to 0. If every record of the history satisfies this, every record does after a
  save and after the deletion of a record.
\<close>

theorem saved_records_valid:
  "(saveResult64 st i now \<noteq> st \<longrightarrow>
      jumpHistory (saveResult64 st i now) =
        hd (jumpHistory (saveResult64 st i now)) # jumpHistory st \<and>
      0 < jr_flightTime (hd (jumpHistory (saveResult64 st i now))) \<and>
      jr_heightCm (hd (jumpHistory (saveResult64 st i now))) =
        calculateJumpHeight64 (jr_flightTime (hd (jumpHistory (saveResult64 st i now)))) \<and>
      0 \<le> jr_heightCm (hd (jumpHistory (saveResult64 st i now))) \<and>
      (0 < jr_heightCm (hd (jumpHistory (saveResult64 st i now))) \<longleftrightarrow>
       2 powi (- 1075) < jr_flightTime (hd (jumpHistory (saveResult64 st i now))) *
                         jr_flightTime (hd (jumpHistory (saveResult64 st i now))))) \<and>
   (list_all validRecord64 (jumpHistory st) \<longrightarrow>
      list_all validRecord64 (jumpHistory (saveResult64 st i now)) \<and>
      list_all validRecord64 (jumpHistory (deleteHistoryItem st j)))"
proof -
  have e: "emin - 1 = - 1075"
    by (simp add: emin_def)
  show ?thesis
    using saveResult64_valid [of st i now] saveResult64_keeps_valid [of st i now]
      deleteHistoryItem_keeps_valid [of st j]
    unfolding validRecord64_def e by blast
qed

theorem saved_records_valid_witness:
  "saveResult64 (loadedState\<lparr> takeOffTime := Some 1, landingTime := Some 1.5 \<rparr>) ''r4b8z1c0k'' 2000 \<noteq>
     loadedState\<lparr> takeOffTime := Some 1, landingTime := Some 1.5 \<rparr> \<and>
   jr_flightTime (hd (jumpHistory (saveResult64
     (loadedState\<lparr> takeOffTime := Some 1, landingTime := Some 1.5 \<rparr>) ''r4b8z1c0k'' 2000))) = 1 / 2 \<and>
   0 < jr_heightCm (hd (jumpHistory (saveResult64
     (loadedState\<lparr> takeOffTime := Some 1, landingTime := Some 1.5 \<rparr>) ''r4b8z1c0k'' 2000))) \<and>
   list_all validRecord64 (jumpHistory (saveResult64
     (loadedState\<lparr> takeOffTime := Some 1, landingTime := Some 1.5 \<rparr>) ''r4b8z1c0k'' 2000)) \<and>
   list_all validRecord64 (jumpHistory (saveResult64
     (loadedState\<lparr> takeOffTime := Some 0, landingTime := Some tinyTime \<rparr>) ''r4b8z1c0k'' 2000))"
proof -
  let ?s = "loadedState\<lparr> takeOffTime := Some 1, landingTime := Some 1.5 \<rparr>"
  let ?s' = "saveResult64 ?s ''r4b8z1c0k'' 2000"
  let ?t = "loadedState\<lparr> takeOffTime := Some 0, landingTime := Some tinyTime \<rparr>"
  have "length (jumpHistory ?s') \<noteq> length (jumpHistory ?s)"
    by (simp add: saveResult64_def half_flight Let_def loadedState_user)
  then have a: "?s' \<noteq> ?s"
    by metis
  have f: "jr_flightTime (hd (jumpHistory ?s')) = 1 / 2"
    by (simp add: saveResult64_def half_flight Let_def loadedState_user)
  have "2 powi (- 1075) < (1 / 2) * (1 / 2 :: real)"
  proof -
    have "(2::real) powi (- 1075) \<le> 2 powi (- 3)"
      by (rule pow2_le) simp
    then show ?thesis
      by simp
  qed
  with saved_records_valid [of ?s "''r4b8z1c0k''" 2000] a
  have h: "0 < jr_heightCm (hd (jumpHistory ?s'))"
    unfolding f by blast
  have "list_all validRecord64 (jumpHistory ?s)" "list_all validRecord64 (jumpHistory ?t)"
    by (simp_all add: loadedState_user)
  with saved_records_valid [of ?s "''r4b8z1c0k''" 2000]
    saved_records_valid [of ?t "''r4b8z1c0k''" 2000]
  have "list_all validRecord64 (jumpHistory ?s')"
    "list_all validRecord64 (jumpHistory (saveResult64 ?t ''r4b8z1c0k'' 2000))"
    by blast+
  with a f h show ?thesis
    by blast
qed

end
